theory Spec2Isabelle
  imports Main "HOL-Library.Word" "HOL-Library.Multiset"
begin

section \<open>JavaScript values used by the stores\<close>

text \<open>
  A JavaScript string is a sequence of UTF-16 code units; \<open>===\<close> on two strings
  compares the sequences. Literals of the source are written through \<open>ascii\<close> where
  they are ASCII and as explicit code units otherwise.
\<close>

type_synonym jsstring = "16 word list"

definition ascii :: "string \<Rightarrow> jsstring" where
  "ascii s = map (\<lambda>c. of_nat (of_char c)) s"

text \<open>
  Template-literal rendering of a non-negative integer: its decimal digits (for the
  integers below \<open>10^21\<close>, which a counter and a time in milliseconds are).
\<close>

fun decimal :: "nat \<Rightarrow> nat list" where
  "decimal n = (if n < 10 then [n] else decimal (n div 10) @ [n mod 10])"

declare decimal.simps [simp del]

definition num_to_string :: "nat \<Rightarrow> jsstring" where
  "num_to_string n = map (\<lambda>d. of_nat (48 + d)) (decimal n)"

text \<open>\<open>s.split(sep)\<close> for a one-unit separator: never the empty array.\<close>

fun split_on :: "'a \<Rightarrow> 'a list \<Rightarrow> 'a list list" where
  "split_on sep [] = [[]]"
| "split_on sep (c # cs) =
     (if c = sep then [] # split_on sep cs
      else (case split_on sep cs of
              [] \<Rightarrow> [[c]]
            | p # ps \<Rightarrow> (c # p) # ps))"

text \<open>\<open>xs.findIndex(p)\<close>: the first index whose element satisfies \<open>p\<close>, or \<open>-1\<close>.\<close>

fun findIndex_from :: "int \<Rightarrow> ('a \<Rightarrow> bool) \<Rightarrow> 'a list \<Rightarrow> int" where
  "findIndex_from i p [] = -1"
| "findIndex_from i p (x # xs) = (if p x then i else findIndex_from (i + 1) p xs)"

definition findIndex :: "('a \<Rightarrow> bool) \<Rightarrow> 'a list \<Rightarrow> int" where
  "findIndex p xs = findIndex_from 0 p xs"

text \<open>\<open>xs.slice(0, n)\<close> and \<open>xs.slice(n)\<close> for an integer \<open>n \<ge> 0\<close>.\<close>

definition slice_to :: "int \<Rightarrow> 'a list \<Rightarrow> 'a list" where
  "slice_to n xs = take (nat n) xs"

definition slice_from :: "int \<Rightarrow> 'a list \<Rightarrow> 'a list" where
  "slice_from n xs = drop (nat n) xs"

text \<open>\<open>s || null\<close> for a string or \<open>undefined\<close>: the empty string is falsy.\<close>

definition or_null :: "jsstring option \<Rightarrow> jsstring option" where
  "or_null v = (case v of None \<Rightarrow> None | Some s \<Rightarrow> if s = [] then None else Some s)"

text \<open>\<open>xs[i]\<close> on an array: \<open>undefined\<close> out of range.\<close>

definition js_index :: "'a list \<Rightarrow> int \<Rightarrow> 'a option" where
  "js_index xs i = (if 0 \<le> i \<and> i < int (length xs) then Some (xs ! nat i) else None)"

section \<open>The tab store (useTabStore.ts)\<close>

text \<open>
  The cursor's line and column are JavaScript numbers that the store only copies;
  they are integers here.
\<close>

record Tab =
  tab_id :: jsstring
  filePath :: "jsstring option"
  fileName :: jsstring
  content :: jsstring
  savedContent :: jsstring
  isDirty :: bool
  cursorPosition :: "int \<times> int"

record TabState =
  tabs :: "Tab list"
  activeTabId :: "jsstring option"

text \<open>The module: the store and the module-level \<open>tabCounter\<close>.\<close>

record TabModule =
  tabCounter :: nat
  tabState :: TabState

datatype js_error = TypeError

definition initialTabState :: TabState where
  "initialTabState = \<lparr>tabs = [], activeTabId = None\<rparr>"

definition initialTabModule :: TabModule where
  "initialTabModule = \<lparr>tabCounter = 0, tabState = initialTabState\<rparr>"

definition newFileName :: jsstring where
  "newFileName = [0x645, 0x644, 0x641, 0x20, 0x62C, 0x62F, 0x64A, 0x62F]"

text \<open>\<open>generateTabId\<close> increments the counter and then renders it; \<open>now\<close> is \<open>Date.now()\<close>.\<close>

definition generateTabId :: "nat \<Rightarrow> nat \<Rightarrow> jsstring \<times> nat" where
  "generateTabId now counter =
     (ascii ''tab-'' @ num_to_string (counter + 1) @ ascii ''-'' @ num_to_string now,
      counter + 1)"

definition getFileName :: "jsstring option \<Rightarrow> jsstring" where
  "getFileName fp =
     (case fp of
        None \<Rightarrow> newFileName
      | Some p \<Rightarrow>
          if p = [] then newFileName
          else (let parts = split_on 0x2F p;
                    l = (case js_index parts (int (length parts) - 1) of
                           None \<Rightarrow> [] | Some s \<Rightarrow> s)
                in if l = [] then newFileName else l))"

definition createTab :: "jsstring option \<Rightarrow> jsstring \<Rightarrow> nat \<Rightarrow> TabModule \<Rightarrow> jsstring \<times> TabModule" where
  "createTab fp c now m =
     (let (i, counter') = generateTabId now (tabCounter m);
          newTab = \<lparr>tab_id = i, filePath = fp, fileName = getFileName fp,
                    content = c, savedContent = c, isDirty = False,
                    cursorPosition = (1, 1)\<rparr>;
          s = tabState m
      in (i, \<lparr>tabCounter = counter',
              tabState = \<lparr>tabs = tabs s @ [newTab], activeTabId = Some i\<rparr>\<rparr>))"

definition closeTab :: "jsstring \<Rightarrow> TabState \<Rightarrow> bool \<times> TabState" where
  "closeTab tabId s =
     (case find (\<lambda>t. tab_id t = tabId) (tabs s) of
        None \<Rightarrow> (True, s)
      | Some tab \<Rightarrow>
          if isDirty tab then (False, s)
          else
            (let tabIndex = findIndex (\<lambda>t. tab_id t = tabId) (tabs s);
                 newTabs = filter (\<lambda>t. tab_id t \<noteq> tabId) (tabs s);
                 newActiveId =
                   (if activeTabId s = Some tabId then
                      (if length newTabs > 0 then
                         (let newIndex = min tabIndex (int (length newTabs) - 1)
                          in or_null (map_option tab_id (js_index newTabs newIndex)))
                       else None)
                    else activeTabId s)
             in (True, \<lparr>tabs = newTabs, activeTabId = newActiveId\<rparr>)))"

definition closeOtherTabs :: "jsstring \<Rightarrow> TabState \<Rightarrow> TabState" where
  "closeOtherTabs tabId s =
     (let remainingTabs = filter (\<lambda>t. tab_id t = tabId \<or> isDirty t) (tabs s)
      in \<lparr>tabs = remainingTabs, activeTabId = Some tabId\<rparr>)"

definition closeTabsToRight :: "jsstring \<Rightarrow> TabState \<Rightarrow> TabState" where
  "closeTabsToRight tabId s =
     (let tabIndex = findIndex (\<lambda>t. tab_id t = tabId) (tabs s)
      in if tabIndex = -1 then s
         else
           (let tabsToKeep = slice_to (tabIndex + 1) (tabs s);
                tabsToRight = slice_from (tabIndex + 1) (tabs s);
                unsavedToRight = filter isDirty tabsToRight;
                newTabs = tabsToKeep @ unsavedToRight;
                newActiveId =
                  (case activeTabId s of
                     None \<Rightarrow> None
                   | Some a \<Rightarrow>
                       if a \<noteq> [] \<and> find (\<lambda>t. tab_id t = a) newTabs = None
                       then Some tabId else Some a)
            in \<lparr>tabs = newTabs, activeTabId = newActiveId\<rparr>))"

definition closeAllTabs :: "TabState \<Rightarrow> TabState" where
  "closeAllTabs s =
     (let unsavedTabs = filter isDirty (tabs s)
      in if length unsavedTabs > 0
         then \<lparr>tabs = unsavedTabs,
               activeTabId = or_null (map_option tab_id (js_index unsavedTabs 0))\<rparr>
         else \<lparr>tabs = [], activeTabId = None\<rparr>)"

definition setActiveTab :: "jsstring \<Rightarrow> TabState \<Rightarrow> TabState" where
  "setActiveTab tabId s = s\<lparr>activeTabId := Some tabId\<rparr>"

definition updateTabContent :: "jsstring \<Rightarrow> jsstring \<Rightarrow> TabState \<Rightarrow> TabState" where
  "updateTabContent tabId c s =
     s\<lparr>tabs := map (\<lambda>tab. if tab_id tab = tabId
                           then tab\<lparr>content := c, isDirty := (c \<noteq> savedContent tab)\<rparr>
                           else tab) (tabs s)\<rparr>"

definition updateTabCursor :: "jsstring \<Rightarrow> int \<Rightarrow> int \<Rightarrow> TabState \<Rightarrow> TabState" where
  "updateTabCursor tabId line col s =
     s\<lparr>tabs := map (\<lambda>tab. if tab_id tab = tabId
                           then tab\<lparr>cursorPosition := (line, col)\<rparr>
                           else tab) (tabs s)\<rparr>"

text \<open>\<open>filePath ?? tab.filePath\<close>: the argument unless it is \<open>undefined\<close>.\<close>

definition markTabSaved :: "jsstring \<Rightarrow> jsstring option \<Rightarrow> TabState \<Rightarrow> TabState" where
  "markTabSaved tabId fp s =
     s\<lparr>tabs := map (\<lambda>tab. if tab_id tab = tabId
                           then (let p = (case fp of None \<Rightarrow> filePath tab | Some q \<Rightarrow> Some q)
                                 in tab\<lparr>savedContent := content tab, isDirty := False,
                                        filePath := p, fileName := getFileName p\<rparr>)
                           else tab) (tabs s)\<rparr>"

definition getActiveTab :: "TabState \<Rightarrow> Tab option" where
  "getActiveTab s = find (\<lambda>t. Some (tab_id t) = activeTabId s) (tabs s)"

definition getTab :: "jsstring \<Rightarrow> TabState \<Rightarrow> Tab option" where
  "getTab tabId s = find (\<lambda>t. tab_id t = tabId) (tabs s)"

definition hasUnsavedTabs :: "TabState \<Rightarrow> bool" where
  "hasUnsavedTabs s = list_ex isDirty (tabs s)"

text \<open>
  \<open>nextTab\<close> reads \<open>state.tabs[nextIndex].id\<close>, which throws when the element is
  \<open>undefined\<close>.
\<close>

definition nextTab :: "TabState \<Rightarrow> js_error + TabState" where
  "nextTab s =
     (if length (tabs s) \<le> 1 then Inr s
      else
        (let currentIndex = findIndex (\<lambda>t. Some (tab_id t) = activeTabId s) (tabs s);
             nextIndex = (currentIndex + 1) mod int (length (tabs s))
         in (case js_index (tabs s) nextIndex of
               None \<Rightarrow> Inl TypeError
             | Some t \<Rightarrow> Inr (s\<lparr>activeTabId := Some (tab_id t)\<rparr>))))"

text \<open>
  \<open>prevTab\<close> reads \<open>state.tabs[prevIndex].id\<close>; when no tab is the active one,
  \<open>currentIndex\<close> is \<open>-1\<close>, \<open>prevIndex\<close> is \<open>-2\<close> and the read throws.
\<close>

definition prevTab :: "TabState \<Rightarrow> js_error + TabState" where
  "prevTab s =
     (if length (tabs s) \<le> 1 then Inr s
      else
        (let currentIndex = findIndex (\<lambda>t. Some (tab_id t) = activeTabId s) (tabs s);
             prevIndex = (if currentIndex = 0 then int (length (tabs s)) - 1
                          else currentIndex - 1)
         in (case js_index (tabs s) prevIndex of
               None \<Rightarrow> Inl TypeError
             | Some t \<Rightarrow> Inr (s\<lparr>activeTabId := Some (tab_id t)\<rparr>))))"

text \<open>One call of a store action; a call that throws leaves the store as it was.\<close>

datatype tab_action =
    CreateTab "jsstring option" jsstring nat
  | CloseTab jsstring
  | CloseOtherTabs jsstring
  | CloseTabsToRight jsstring
  | CloseAllTabs
  | SetActiveTab jsstring
  | UpdateTabContent jsstring jsstring
  | UpdateTabCursor jsstring int int
  | MarkTabSaved jsstring "jsstring option"
  | NextTab
  | PrevTab

fun on_store :: "(TabState \<Rightarrow> TabState) \<Rightarrow> TabModule \<Rightarrow> TabModule" where
  "on_store f m = m\<lparr>tabState := f (tabState m)\<rparr>"

fun run_action :: "tab_action \<Rightarrow> TabModule \<Rightarrow> TabModule" where
  "run_action (CreateTab fp c now) m = snd (createTab fp c now m)"
| "run_action (CloseTab i) m = on_store (\<lambda>s. snd (closeTab i s)) m"
| "run_action (CloseOtherTabs i) m = on_store (closeOtherTabs i) m"
| "run_action (CloseTabsToRight i) m = on_store (closeTabsToRight i) m"
| "run_action CloseAllTabs m = on_store closeAllTabs m"
| "run_action (SetActiveTab i) m = on_store (setActiveTab i) m"
| "run_action (UpdateTabContent i c) m = on_store (updateTabContent i c) m"
| "run_action (UpdateTabCursor i l c) m = on_store (updateTabCursor i l c) m"
| "run_action (MarkTabSaved i fp) m = on_store (markTabSaved i fp) m"
| "run_action NextTab m =
     on_store (\<lambda>s. case nextTab s of Inl e \<Rightarrow> s | Inr s' \<Rightarrow> s') m"
| "run_action PrevTab m =
     on_store (\<lambda>s. case prevTab s of Inl e \<Rightarrow> s | Inr s' \<Rightarrow> s') m"

fun run_actions :: "tab_action list \<Rightarrow> TabModule \<Rightarrow> TabModule" where
  "run_actions [] m = m"
| "run_actions (a # as) m = run_actions as (run_action a m)"

text \<open>The dirty flag of every tab says whether its content differs from the saved one.\<close>

definition dirty_consistent :: "Tab list \<Rightarrow> bool" where
  "dirty_consistent ts = list_all (\<lambda>t. isDirty t = (content t \<noteq> savedContent t)) ts"

text \<open>Every tab of the store got its id from a counter value already used, and no two the same.\<close>

definition ids_generated :: "TabModule \<Rightarrow> bool" where
  "ids_generated m \<longleftrightarrow>
     distinct (map tab_id (tabs (tabState m)))
   \<and> (\<forall>t \<in> set (tabs (tabState m)).
        \<exists>k now. k < tabCounter m \<and> tab_id t = fst (generateTabId now k))"

text \<open>An action keeps the ids of the store: it adds none and repeats none.\<close>

definition ids_kept :: "TabState \<Rightarrow> TabState \<Rightarrow> bool" where
  "ids_kept s s' \<longleftrightarrow>
     (distinct (map tab_id (tabs s)) \<longrightarrow> distinct (map tab_id (tabs s')))
   \<and> tab_id ` set (tabs s') \<subseteq> tab_id ` set (tabs s)"

text \<open>A store with a clean tab \<open>a\<close>, an edited tab \<open>b\<close> and a clean tab \<open>c\<close>; \<open>a\<close> is active.\<close>

definition demo_tab :: "string \<Rightarrow> string \<Rightarrow> string \<Rightarrow> Tab" where
  "demo_tab i c saved =
     \<lparr>tab_id = ascii i, filePath = None, fileName = newFileName,
      content = ascii c, savedContent = ascii saved, isDirty = (ascii c \<noteq> ascii saved),
      cursorPosition = (1, 1)\<rparr>"

definition demo_store :: TabState where
  "demo_store =
     \<lparr>tabs = [demo_tab ''a'' ''x'' ''x'', demo_tab ''b'' ''y'' ''x'', demo_tab ''c'' [] []],
      activeTabId = Some (ascii ''a'')\<rparr>"

definition demo_module :: TabModule where
  "demo_module = \<lparr>tabCounter = 3, tabState = demo_store\<rparr>"

section \<open>The renderer bridge (preload/index.ts)\<close>

text \<open>
  \<open>ipcRenderer\<close> is an event emitter: per channel, the listeners in the order they were
  added. A listener is a function object, compared by reference; here it is the pair of
  the number of its allocation and the callback it wraps. \<open>removeListener\<close> removes
  the most recently added instance of the listener, and at most that one.
\<close>

type_synonym channel = string

type_synonym 'cb listener = "nat \<times> 'cb"

record 'cb renderer =
  listeners :: "channel \<Rightarrow> 'cb listener list"
  allocated :: nat

definition initialRenderer :: "'cb renderer" where
  "initialRenderer = \<lparr>listeners = (\<lambda>c. []), allocated = 0\<rparr>"

definition remove_last :: "'a \<Rightarrow> 'a list \<Rightarrow> 'a list" where
  "remove_last x xs = rev (remove1 x (rev xs))"

definition ipc_on :: "channel \<Rightarrow> 'cb listener \<Rightarrow> 'cb renderer \<Rightarrow> 'cb renderer" where
  "ipc_on ch h r = r\<lparr>listeners := (listeners r)(ch := listeners r ch @ [h])\<rparr>"

definition ipc_removeListener :: "channel \<Rightarrow> 'cb listener \<Rightarrow> 'cb renderer \<Rightarrow> 'cb renderer" where
  "ipc_removeListener ch h r = r\<lparr>listeners := (listeners r)(ch := remove_last h (listeners r ch))\<rparr>"

definition ipc_removeAllListeners :: "channel \<Rightarrow> 'cb renderer \<Rightarrow> 'cb renderer" where
  "ipc_removeAllListeners ch r = r\<lparr>listeners := (listeners r)(ch := [])\<rparr>"

text \<open>The event kinds of the language client that the main process forwards.\<close>

datatype lsp_event = Diagnostics | Log | ShowMessage | Error | Close

text \<open>
  The channel on which the \<open>lsp:start\<close> handler of the main process sends each event
  kind to the renderer (\<open>event.sender.send\<close>).
\<close>

fun forward_channel :: "lsp_event \<Rightarrow> channel" where
  "forward_channel Diagnostics = ''lsp:diagnostics''"
| "forward_channel Log = ''lsp:log''"
| "forward_channel ShowMessage = ''lsp:showMessage''"
| "forward_channel Error = ''lsp:error''"
| "forward_channel Close = ''lsp:close''"

text \<open>The listener functions that \<open>window.qalam.lsp\<close> exposes, and the channel of each.\<close>

datatype lsp_listener_op = OnDiagnostics | OnLog | OnError | OnClose

definition lsp_listener_ops :: "lsp_listener_op list" where
  "lsp_listener_ops = [OnDiagnostics, OnLog, OnError, OnClose]"

fun channel_of :: "lsp_listener_op \<Rightarrow> channel" where
  "channel_of OnDiagnostics = ''lsp:diagnostics''"
| "channel_of OnLog = ''lsp:log''"
| "channel_of OnError = ''lsp:error''"
| "channel_of OnClose = ''lsp:close''"

text \<open>
  \<open>onDiagnostics\<close>, \<open>onLog\<close>, \<open>onError\<close> and \<open>onClose\<close>: allocate the wrapping
  handler, add it to the channel, and return the disposer, a closure over the channel
  and that handler.
\<close>

type_synonym 'cb disposer = "channel \<times> 'cb listener"

definition subscribe :: "lsp_listener_op \<Rightarrow> 'cb \<Rightarrow> 'cb renderer \<Rightarrow> 'cb disposer \<times> 'cb renderer" where
  "subscribe op callback r =
     (let handler = (allocated r, callback);
          r' = ipc_on (channel_of op) handler (r\<lparr>allocated := allocated r + 1\<rparr>)
      in ((channel_of op, handler), r'))"

definition dispose :: "'cb disposer \<Rightarrow> 'cb renderer \<Rightarrow> 'cb renderer" where
  "dispose d r = ipc_removeListener (fst d) (snd d) r"

definition removeListeners :: "'cb renderer \<Rightarrow> 'cb renderer" where
  "removeListeners r =
     ipc_removeAllListeners ''lsp:close''
       (ipc_removeAllListeners ''lsp:error''
         (ipc_removeAllListeners ''lsp:log''
           (ipc_removeAllListeners ''lsp:diagnostics'' r)))"

text \<open>
  The exposed listener function for an event kind: the one whose channel is the channel
  the main process forwards that kind on, if there is one.
\<close>

definition subscription_for :: "lsp_event \<Rightarrow> lsp_listener_op option" where
  "subscription_for k = find (\<lambda>op. channel_of op = forward_channel k) lsp_listener_ops"


text \<open>A renderer with one \<open>lsp:log\<close> listener, and the same after one more \<open>onLog\<close>.\<close>

definition demo_renderer :: "string renderer" where
  "demo_renderer = \<lparr>listeners = (\<lambda>c. [])(''lsp:log'' := [(0, ''first'')]), allocated = 1\<rparr>"

definition demo_disposer :: "string disposer" where
  "demo_disposer = (''lsp:log'', (1, ''second''))"

definition demo_renderer_subscribed :: "string renderer" where
  "demo_renderer_subscribed =
     \<lparr>listeners = (\<lambda>c. [])(''lsp:log'' := [(0, ''first''), (1, ''second'')]), allocated = 2\<rparr>"

section \<open>The language client (lsp-client.ts)\<close>

text \<open>
  The main process imports \<open>getLSPClient\<close> and \<open>destroyLSPClient\<close> from the module
  \<open>./lsp-client\<close>, which is not among the source files. The definitions of this section
  follow the specification's description of that module (its sections 3, 4.3, 4.5 and 7).
  An operation that waits for the server takes the server's behaviour as an argument
  and runs to its end in one step.
\<close>

text \<open>\<open>haystack.includes(needle)\<close> on strings.\<close>

fun starts_with :: "'a list \<Rightarrow> 'a list \<Rightarrow> bool" where
  "starts_with xs [] = True"
| "starts_with [] (y # ys) = False"
| "starts_with (x # xs) (y # ys) = (x = y \<and> starts_with xs ys)"

fun js_includes :: "'a list \<Rightarrow> 'a list \<Rightarrow> bool" where
  "js_includes [] needle = (needle = [])"
| "js_includes (x # xs) needle = (starts_with (x # xs) needle \<or> js_includes xs needle)"

text \<open>Modelled from the spec: ClientState, the states of the client of lsp-client.ts.\<close>

datatype client_state = Stopped | Starting | Running | Stopping | Crashed

text \<open>Modelled from the spec: the error taxonomy of lsp-client.ts (spec section 7).\<close>

datatype lsp_error =
    SpawnError jsstring
  | ProtocolError
  | TimeoutError
  | ServerError int jsstring
  | AlreadyRunningError
  | NotRunningError
  | ConnectionClosedError
  | CancelledError

text \<open>
  Modelled from the spec: the \<open>message\<close> of each error of the taxonomy, which the
  missing module sets. The spec fixes two texts in part: the error of a start whose
  server binary is absent contains \<open>Failed to start\<close>, and the error of a call outside
  Running ends in \<open>not running\<close>. A server error carries the server's message. The
  other errors are rendered by their names.
\<close>

fun error_message :: "lsp_error \<Rightarrow> jsstring" where
  "error_message (SpawnError detail) = ascii ''Failed to start LSP server: '' @ detail"
| "error_message ProtocolError = ascii ''ProtocolError''"
| "error_message TimeoutError = ascii ''TimeoutError''"
| "error_message (ServerError code msg) = msg"
| "error_message AlreadyRunningError = ascii ''AlreadyRunningError''"
| "error_message NotRunningError = ascii ''LSP server not running''"
| "error_message ConnectionClosedError = ascii ''ConnectionClosedError''"
| "error_message CancelledError = ascii ''CancelledError''"

text \<open>
  Modelled from the spec: what the client of lsp-client.ts writes to the server's
  input: the initialize request with the workspace root, the confirmation
  notification, the shutdown request, the exit notification, and the requests and
  notifications of the host. JSON payloads are opaque values of type \<open>'j\<close>.
\<close>

datatype 'j outbound =
    Initialize nat jsstring
  | Initialized
  | Shutdown nat
  | Exit
  | Request nat jsstring 'j
  | Notification jsstring 'j

text \<open>
  Modelled from the spec: the client (ClientLifecycleManager with its
  RequestDispatcher): the state, the capabilities of a Running session, the handle of
  the child process, the ids of the pending requests, the next id, and the event kinds
  of the handlers registered with \<open>on\<close>, in registration order.
\<close>

record 'j client =
  state :: client_state
  capabilities :: "'j option"
  process :: "nat option"
  pending :: "nat list"
  nextId :: nat
  handlers :: "lsp_event list"

text \<open>
  Modelled from the spec: what the ProcessSupervisor and the RequestDispatcher of
  lsp-client.ts act on: the live child processes, the number of processes spawned so
  far, the frames written to each process, the pending requests rejected so far and
  the processes terminated by force.
\<close>

record 'j os =
  children :: "nat list"
  spawned :: nat
  stdin :: "(nat \<times> 'j outbound) list"
  rejected :: "(nat \<times> lsp_error) list"
  killed :: "nat list"

text \<open>
  Modelled from the spec: the main process holds the module-level singleton of
  lsp-client.ts, absent until \<open>getLSPClient\<close> constructs it.
\<close>

record 'j main_process =
  lspClient :: "'j client option"
  os :: "'j os"

text \<open>Modelled from the spec: a fresh, unstarted client of lsp-client.ts.\<close>

definition newClient :: "'j client" where
  "newClient = \<lparr>state = Stopped, capabilities = None, process = None, pending = [],
                 nextId = 0, handlers = []\<rparr>"

text \<open>The main process when the application starts: no client, no child process.\<close>

definition initialOs :: "'j os" where
  "initialOs = \<lparr>children = [], spawned = 0, stdin = [], rejected = [], killed = []\<rparr>"

definition initialMain :: "'j main_process" where
  "initialMain = \<lparr>lspClient = None, os = initialOs\<rparr>"

text \<open>
  Modelled from the spec: \<open>getLSPClient\<close> returns the singleton and constructs a
  fresh, unstarted client when there is none.
\<close>

definition getLSPClient :: "'j main_process \<Rightarrow> 'j client \<times> 'j main_process" where
  "getLSPClient w =
     (case lspClient w of
        Some c \<Rightarrow> (c, w)
      | None \<Rightarrow> (newClient, w\<lparr>lspClient := Some newClient\<rparr>))"

text \<open>Modelled from the spec: \<open>isRunning\<close> is true iff the state is exactly Running.\<close>

definition isRunning :: "'j client \<Rightarrow> bool" where
  "isRunning c \<longleftrightarrow> state c = Running"

text \<open>
  Modelled from the spec: \<open>RequestDispatcher.closeAll\<close> rejects every pending request
  once with ConnectionClosedError and empties the pending set.
\<close>

definition closeAll :: "'j client \<Rightarrow> 'j os \<Rightarrow> 'j client \<times> 'j os" where
  "closeAll c sys =
     (c\<lparr>pending := []\<rparr>,
      sys\<lparr>rejected := rejected sys @ map (\<lambda>i. (i, ConnectionClosedError)) (pending c)\<rparr>)"

text \<open>Modelled from the spec: forced termination of a child process.\<close>

definition force_terminate :: "nat \<Rightarrow> 'j os \<Rightarrow> 'j os" where
  "force_terminate pid sys =
     sys\<lparr>children := removeAll pid (children sys), killed := killed sys @ [pid]\<rparr>"

text \<open>
  Modelled from the spec: a frame written to the input of a process through the single
  writer of lsp-client.ts.
\<close>

definition write_frame :: "nat \<Rightarrow> 'j outbound \<Rightarrow> 'j os \<Rightarrow> 'j os" where
  "write_frame pid m sys = sys\<lparr>stdin := stdin sys @ [(pid, m)]\<rparr>"

text \<open>
  Modelled from the spec: how the system and the server answer a start: the spawn
  fails (SpawnError, with the system's detail) or not, and the handshake fails with
  an error or returns the capabilities.
\<close>

datatype spawn_outcome = SpawnFails jsstring | SpawnOk

datatype 'j handshake_outcome = HandshakeFails lsp_error | HandshakeOk 'j

text \<open>
  Modelled from the spec: \<open>start(workspacePath)\<close> fails at once with
  AlreadyRunningError unless the state is Stopped or Crashed. Otherwise it spawns the
  process, sends the initialize request with the workspace root and awaits its result
  as the capabilities, sends the confirmation notification, stores the capabilities
  and sets Running; on a failure it tears the process down (force-terminates it and
  rejects what is pending) and reports the error, the state being Stopped. The
  initialize request completes with the handshake, so it is not pending afterwards.
\<close>

definition client_start ::
  "jsstring \<Rightarrow> spawn_outcome \<Rightarrow> 'j handshake_outcome \<Rightarrow> 'j client \<Rightarrow> 'j os
     \<Rightarrow> (lsp_error + 'j) \<times> 'j client \<times> 'j os" where
  "client_start workspacePath spawning handshake c sys =
     (if state c \<noteq> Stopped \<and> state c \<noteq> Crashed then (Inl AlreadyRunningError, c, sys)
      else
        (case spawning of
           SpawnFails detail \<Rightarrow> (Inl (SpawnError detail), c\<lparr>state := Stopped\<rparr>, sys)
         | SpawnOk \<Rightarrow>
             (let pid = spawned sys;
                  sys1 = sys\<lparr>children := children sys @ [pid], spawned := spawned sys + 1\<rparr>;
                  i = nextId c;
                  c1 = c\<lparr>state := Starting, process := Some pid, nextId := i + 1\<rparr>;
                  sys2 = write_frame pid (Initialize i workspacePath) sys1
              in (case handshake of
                    HandshakeFails e \<Rightarrow>
                      (let (c2, sys3) = closeAll c1 (force_terminate pid sys2)
                       in (Inl e, c2\<lparr>state := Stopped, process := None\<rparr>, sys3))
                  | HandshakeOk caps \<Rightarrow>
                      (Inr caps, c1\<lparr>capabilities := Some caps, state := Running\<rparr>,
                       write_frame pid Initialized sys2)))))"


text \<open>
  Modelled from the spec: \<open>destroyLSPClient\<close> (\<open>destroy()\<close>) is the unconditional
  teardown: it skips the cooperative handshake, force-terminates the process if one
  exists, rejects all pending requests and drops the singleton.
\<close>

definition destroyLSPClient :: "'j main_process \<Rightarrow> 'j main_process" where
  "destroyLSPClient w =
     (case lspClient w of
        None \<Rightarrow> w
      | Some c \<Rightarrow>
          (let o1 = (case process c of None \<Rightarrow> os w | Some pid \<Rightarrow> force_terminate pid (os w));
               (c1, o2) = closeAll c o1
           in \<lparr>lspClient = None, os = o2\<rparr>))"

text \<open>
  Modelled from the spec: an unexpected exit of the process while Running rejects
  every pending request with ConnectionClosedError and leaves the state Crashed.
\<close>

definition process_exited :: "'j client \<Rightarrow> 'j os \<Rightarrow> 'j client \<times> 'j os" where
  "process_exited c sys =
     (case process c of
        None \<Rightarrow> (c, sys)
      | Some pid \<Rightarrow>
          if state c = Running then
            (let (c1, o1) = closeAll c (sys\<lparr>children := removeAll pid (children sys)\<rparr>)
             in (c1\<lparr>state := Crashed, process := None, capabilities := None\<rparr>, o1))
          else (c, sys))"

text \<open>
  Modelled from the spec: how a request ends (RequestDispatcher.send): with a result,
  with an error response, by timeout, or by the connection closing.
\<close>

datatype 'j request_outcome = Answered 'j | Refused int jsstring | TimedOut | Disconnected

text \<open>
  Modelled from the spec: \<open>request\<close> and \<open>notify\<close> fail fast with NotRunningError
  outside Running. A request takes the next id, is recorded as pending and written;
  it completes with the result, a ServerError, a TimeoutError, or a
  ConnectionClosedError when the process exits. A notification is written and
  registers nothing.
\<close>

definition client_request ::
  "jsstring \<Rightarrow> 'j \<Rightarrow> 'j request_outcome \<Rightarrow> 'j client \<Rightarrow> 'j os \<Rightarrow> (lsp_error + 'j) \<times> 'j client \<times> 'j os" where
  "client_request method params outcome c sys =
     (case (if state c = Running then process c else None) of
        None \<Rightarrow> (Inl NotRunningError, c, sys)
      | Some pid \<Rightarrow>
          (let i = nextId c;
               c1 = c\<lparr>nextId := i + 1, pending := pending c @ [i]\<rparr>;
               o1 = write_frame pid (Request i method params) sys;
               c2 = c1\<lparr>pending := removeAll i (pending c1)\<rparr>
           in (case outcome of
                 Answered r \<Rightarrow> (Inr r, c2, o1)
               | Refused code msg \<Rightarrow>
                   (Inl (ServerError code msg), c2,
                    o1\<lparr>rejected := rejected o1 @ [(i, ServerError code msg)]\<rparr>)
               | TimedOut \<Rightarrow>
                   (Inl TimeoutError, c2, o1\<lparr>rejected := rejected o1 @ [(i, TimeoutError)]\<rparr>)
               | Disconnected \<Rightarrow>
                   (let (c3, o3) = process_exited c1 o1 in (Inl ConnectionClosedError, c3, o3)))))"

text \<open>Modelled from the spec: \<open>notify\<close> of lsp-client.ts, as described above.\<close>

definition client_notify ::
  "jsstring \<Rightarrow> 'j \<Rightarrow> 'j client \<Rightarrow> 'j os \<Rightarrow> (lsp_error + unit) \<times> 'j client \<times> 'j os" where
  "client_notify method params c sys =
     (case (if state c = Running then process c else None) of
        None \<Rightarrow> (Inl NotRunningError, c, sys)
      | Some pid \<Rightarrow> (Inr (), c, write_frame pid (Notification method params) sys))"

section \<open>The LSP handlers of the main process (main/index.ts)\<close>

text \<open>
  What a handler returns to the renderer: \<open>{success, capabilities?, error?}\<close> for
  \<open>lsp:start\<close>, \<open>{success, result?, error?}\<close> for \<open>lsp:request\<close> and
  \<open>{success, error?}\<close> for the others; \<open>payload\<close> is the capabilities or the result.
\<close>

record 'j reply =
  success :: bool
  payload :: "'j option"
  error :: "jsstring option"

definition succeeded :: "'j option \<Rightarrow> 'j reply" where
  "succeeded v = \<lparr>success = True, payload = v, error = None\<rparr>"

definition failed :: "jsstring \<Rightarrow> 'j reply" where
  "failed msg = \<lparr>success = False, payload = None, error = Some msg\<rparr>"

text \<open>
  \<open>lsp:start\<close>: take the singleton, register the five forwarding handlers, await
  \<open>start\<close> and reply with \<open>result.capabilities\<close>, the capabilities that \<open>start\<close>
  resolved with; a thrown error becomes \<open>{success: false, error: message}\<close>.
\<close>

definition lsp_start ::
  "jsstring \<Rightarrow> spawn_outcome \<Rightarrow> 'j handshake_outcome \<Rightarrow> 'j main_process \<Rightarrow> 'j reply \<times> 'j main_process" where
  "lsp_start workspacePath spawning handshake w =
     (let (c, w1) = getLSPClient w;
          c1 = c\<lparr>handlers := handlers c @ [Diagnostics, Log, ShowMessage, Error, Close]\<rparr>;
          (result, c2, o2) = client_start workspacePath spawning handshake c1 (os w1);
          w2 = \<lparr>lspClient = Some c2, os = o2\<rparr>
      in (case result of
            Inr caps \<Rightarrow> (succeeded (Some caps), w2)
          | Inl e \<Rightarrow> (failed (error_message e), w2)))"

text \<open>\<open>lsp:stop\<close>: call \<open>destroyLSPClient\<close> and report success.\<close>

definition lsp_stop :: "'j main_process \<Rightarrow> 'j reply \<times> 'j main_process" where
  "lsp_stop w = (succeeded None, destroyLSPClient w)"

text \<open>
  \<open>lsp:request\<close> and \<open>lsp:notify\<close>: take the singleton; unless it is running,
  return the failure without calling it.
\<close>

definition lsp_request ::
  "jsstring \<Rightarrow> 'j \<Rightarrow> 'j request_outcome \<Rightarrow> 'j main_process \<Rightarrow> 'j reply \<times> 'j main_process" where
  "lsp_request method params outcome w =
     (let (c, w1) = getLSPClient w
      in if \<not> isRunning c then (failed (ascii ''LSP server not running''), w1)
         else
           (let (result, c2, o2) = client_request method params outcome c (os w1);
                w2 = \<lparr>lspClient = Some c2, os = o2\<rparr>
            in (case result of
                  Inr r \<Rightarrow> (succeeded (Some r), w2)
                | Inl e \<Rightarrow> (failed (error_message e), w2))))"

definition lsp_notify :: "jsstring \<Rightarrow> 'j \<Rightarrow> 'j main_process \<Rightarrow> 'j reply \<times> 'j main_process" where
  "lsp_notify method params w =
     (let (c, w1) = getLSPClient w
      in if \<not> isRunning c then (failed (ascii ''LSP server not running''), w1)
         else
           (let (result, c2, o2) = client_notify method params c (os w1);
                w2 = \<lparr>lspClient = Some c2, os = o2\<rparr>
            in (case result of
                  Inr u \<Rightarrow> (succeeded None, w2)
                | Inl e \<Rightarrow> (failed (error_message e), w2))))"

definition lsp_isRunning :: "'j main_process \<Rightarrow> bool \<times> 'j main_process" where
  "lsp_isRunning w = (let (c, w1) = getLSPClient w in (isRunning c, w1))"

text \<open>The state of the client a handler would find.\<close>

definition client_state_of :: "'j main_process \<Rightarrow> client_state" where
  "client_state_of w = state (fst (getLSPClient w))"

text \<open>What can happen to the main process: a call of a handler, or the server exiting.\<close>

datatype 'j host_event =
    LspStart jsstring spawn_outcome "'j handshake_outcome"
  | LspStop
  | LspRequest jsstring 'j "'j request_outcome"
  | LspNotify jsstring 'j
  | LspIsRunning
  | ServerExit

fun run_event :: "'j host_event \<Rightarrow> 'j main_process \<Rightarrow> 'j main_process" where
  "run_event (LspStart p s h) w = snd (lsp_start p s h w)"
| "run_event LspStop w = snd (lsp_stop w)"
| "run_event (LspRequest m p out) w = snd (lsp_request m p out w)"
| "run_event (LspNotify m p) w = snd (lsp_notify m p w)"
| "run_event LspIsRunning w = snd (lsp_isRunning w)"
| "run_event ServerExit w =
     (case lspClient w of
        None \<Rightarrow> w
      | Some c \<Rightarrow> (let (c1, o1) = process_exited c (os w) in \<lparr>lspClient = Some c1, os = o1\<rparr>))"

fun run_events :: "'j host_event list \<Rightarrow> 'j main_process \<Rightarrow> 'j main_process" where
  "run_events [] w = w"
| "run_events (e # es) w = run_events es (run_event e w)"

text \<open>The child processes of the main process are those the client holds a handle of.\<close>

definition client_processes :: "'j main_process \<Rightarrow> nat list" where
  "client_processes w =
     (case lspClient w of
        None \<Rightarrow> []
      | Some c \<Rightarrow> (case process c of None \<Rightarrow> [] | Some pid \<Rightarrow> [pid]))"

definition session_ok :: "'j main_process \<Rightarrow> bool" where
  "session_ok w \<longleftrightarrow>
     children (os w) = client_processes w
   \<and> (case lspClient w of
        None \<Rightarrow> True
      | Some c \<Rightarrow> (state c = Running \<longleftrightarrow> process c \<noteq> None)
                \<and> (state c = Stopped \<or> state c = Running \<or> state c = Crashed)
                \<and> (state c \<noteq> Running \<longrightarrow> pending c = []))"

definition client_ok :: "'j client \<Rightarrow> 'j os \<Rightarrow> bool" where
  "client_ok c sys \<longleftrightarrow> session_ok \<lparr>lspClient = Some c, os = sys\<rparr>"


text \<open>The main process after a successful \<open>lsp:start\<close> for the workspace \<open>/proj\<close>.\<close>

definition demo_running :: "nat main_process" where
  "demo_running = snd (lsp_start (ascii ''/proj'') SpawnOk (HandshakeOk 7) initialMain)"


section \<open>The wire framing (FramingCodec of lsp-client.ts)\<close>

text \<open>
  The codec is part of the client module that is not among the source files. The
  definitions of this section follow the specification (its sections 4.1 and 6): a
  frame is a header line declaring the byte length of the body, a blank-line
  separator, and the body, the UTF-8 encoding of the JSON text of the message. The
  specification does not spell the header line; it is the \<open>Content-Length\<close> line of
  the Language Server Protocol here, with lines ending in CR LF. The JSON layer is a
  parameter: \<open>stringify\<close> gives the UTF-8 bytes of a payload's JSON text, \<open>parse\<close>
  reads such bytes back, and a payload is JSON-serializable when
  \<open>parse (stringify p) = Some p\<close>.
\<close>

type_synonym byte = "8 word"

definition bytes_of :: "string \<Rightarrow> byte list" where
  "bytes_of s = map (\<lambda>c. of_nat (of_char c)) s"

text \<open>
  Modelled from the spec: the byte length in the header line of lsp-client.ts's
  frames, written and read in decimal.
\<close>

definition render_length :: "nat \<Rightarrow> byte list" where
  "render_length n = map (\<lambda>d. of_nat (48 + d)) (decimal n)"

definition is_digit :: "byte \<Rightarrow> bool" where
  "is_digit b \<longleftrightarrow> 48 \<le> unat b \<and> unat b \<le> 57"

definition parse_length :: "byte list \<Rightarrow> nat option" where
  "parse_length bs =
     (if bs = [] \<or> \<not> list_all is_digit bs then None
      else Some (foldl (\<lambda>acc b. 10 * acc + (unat b - 48)) 0 bs))"

text \<open>
  Modelled from the spec: the name that starts the header line, and the blank-line
  separator between the header and the body.
\<close>

definition header_name :: "byte list" where
  "header_name = bytes_of ''Content-Length: ''"

definition separator :: "byte list" where
  "separator = [13, 10, 13, 10]"

text \<open>Modelled from the spec: \<open>encode\<close>, the header with the exact byte length, then the body.\<close>

definition encode :: "('p \<Rightarrow> byte list) \<Rightarrow> 'p \<Rightarrow> byte list" where
  "encode stringify p =
     (let body = stringify p
      in header_name @ render_length (length body) @ separator @ body)"

text \<open>
  Modelled from the spec: where the header of the first frame of the buffer ends, the
  index of the first blank-line separator, and the length that header declares.
\<close>

fun find_separator :: "byte list \<Rightarrow> nat option" where
  "find_separator [] = None"
| "find_separator (b # bs) =
     (if starts_with (b # bs) separator then Some 0
      else map_option Suc (find_separator bs))"

definition content_length :: "byte list \<Rightarrow> nat option" where
  "content_length header =
     (if starts_with header header_name then parse_length (drop (length header_name) header)
      else None)"

text \<open>
  Modelled from the spec: what the decoder hands on: a message, or a ProtocolError
  for a header that declares no length or a body that does not parse.
\<close>

datatype 'p decode_event = Decoded 'p | DecodeError lsp_error

definition read_body :: "(byte list \<Rightarrow> 'p option) \<Rightarrow> byte list \<Rightarrow> 'p decode_event" where
  "read_body parse body =
     (case parse body of None \<Rightarrow> DecodeError ProtocolError | Some p \<Rightarrow> Decoded p)"

text \<open>
  Modelled from the spec: the decoder keeps the bytes of incomplete frames. With
  the buffer extended by a chunk, it takes complete frames off its front for as long
  as there are any: it waits while the separator or a part of the body is missing,
  and after a malformed header it reports the error and goes on behind the separator.
  The body is cut by the declared number of bytes and read only when it is complete.
\<close>

function drain :: "(byte list \<Rightarrow> 'p option) \<Rightarrow> byte list \<Rightarrow> 'p decode_event list \<times> byte list" where
  "drain parse buf =
     (case find_separator buf of
        None \<Rightarrow> ([], buf)
      | Some k \<Rightarrow>
          (case content_length (take k buf) of
             None \<Rightarrow>
               (case drain parse (drop (k + 4) buf) of
                  (evs, rest) \<Rightarrow> (DecodeError ProtocolError # evs, rest))
           | Some n \<Rightarrow>
               if length (drop (k + 4) buf) < n then ([], buf)
               else
                 (case drain parse (drop n (drop (k + 4) buf)) of
                    (evs, rest) \<Rightarrow> (read_body parse (take n (drop (k + 4) buf)) # evs, rest))))"
  by pat_completeness auto

text \<open>
  Modelled from the spec: a decoder is its buffer, empty for a fresh connection.
  \<open>decode\<close> feeds the chunks of a stream in order and collects what the decoder
  hands on.
\<close>

definition feed :: "(byte list \<Rightarrow> 'p option) \<Rightarrow> byte list \<Rightarrow> byte list \<Rightarrow> 'p decode_event list \<times> byte list" where
  "feed parse chunk buf = drain parse (buf @ chunk)"

fun decode :: "(byte list \<Rightarrow> 'p option) \<Rightarrow> byte list list \<Rightarrow> byte list \<Rightarrow> 'p decode_event list \<times> byte list" where
  "decode parse [] buf = ([], buf)"
| "decode parse (chunk # chunks) buf =
     (case feed parse chunk buf of
        (evs, buf') \<Rightarrow>
          (case decode parse chunks buf' of
             (evs', buf'') \<Rightarrow> (evs @ evs', buf'')))"

text \<open>
  The JSON text \<open>"e"\<close> with an acute accent on the letter (two bytes in UTF-8), as a
  payload that is its own body, and its frame cut into chunks inside the header,
  inside the separator and inside the two-byte character.
\<close>

definition demo_body :: "byte list" where
  "demo_body = [0x22, 0xC3, 0xA9, 0x22]"

definition demo_chunks :: "byte list list" where
  "demo_chunks =
     [bytes_of ''Content-Len'', bytes_of ''gth: 4'' @ [13, 10, 13], [], [10, 0x22, 0xC3],
      [0xA9, 0x22]]"

section \<open>Tab store: unsaved tabs survive closing\<close>

lemma set_take_drop_filter:
  assumes "x \<in> set xs" and "P x"
  shows "x \<in> set (take n xs) \<union> set (filter P (drop n xs))"
proof -
  have "set xs = set (take n xs) \<union> set (drop n xs)"
    by (metis append_take_drop_id set_append)
  with assms show ?thesis by auto
qed

lemma ascii_single [simp]: "ascii [c] = [of_nat (of_char c)]"
  by (simp add: ascii_def)

text \<open>
  C8. closeOtherTabs, closeTabsToRight and closeAllTabs keep every tab whose isDirty
  flag is set: a tab of the list that is dirty before the call is in the list after it.
\<close>

theorem bulk_close_keeps_dirty:
  assumes "t \<in> set (tabs s)" and "isDirty t"
  shows "t \<in> set (tabs (closeOtherTabs i s))
       \<and> t \<in> set (tabs (closeTabsToRight i s))
       \<and> t \<in> set (tabs (closeAllTabs s))"
proof (intro conjI)
  show "t \<in> set (tabs (closeOtherTabs i s))"
    using assms by (simp add: closeOtherTabs_def)
  show "t \<in> set (tabs (closeTabsToRight i s))"
    using assms set_take_drop_filter [of t "tabs s" isDirty]
    by (simp add: closeTabsToRight_def Let_def slice_to_def slice_from_def)
  have "filter isDirty (tabs s) \<noteq> []"
    using assms by (auto simp: filter_empty_conv)
  then show "t \<in> set (tabs (closeAllTabs s))"
    using assms by (simp add: closeAllTabs_def Let_def)
qed

theorem bulk_close_keeps_dirty_witness:
  "demo_tab ''b'' ''y'' ''x'' \<in> set (tabs demo_store)
 \<and> isDirty (demo_tab ''b'' ''y'' ''x'')
 \<and> demo_tab ''b'' ''y'' ''x'' \<in> set (tabs (closeOtherTabs (ascii ''a'') demo_store))
 \<and> demo_tab ''b'' ''y'' ''x'' \<in> set (tabs (closeTabsToRight (ascii ''a'') demo_store))
 \<and> demo_tab ''b'' ''y'' ''x'' \<in> set (tabs (closeAllTabs demo_store))"
proof -
  have in_store: "demo_tab ''b'' ''y'' ''x'' \<in> set (tabs demo_store)"
    by (simp add: demo_store_def)
  have dirty: "isDirty (demo_tab ''b'' ''y'' ''x'')"
    by (simp add: demo_tab_def)
  from bulk_close_keeps_dirty [OF in_store dirty, of "ascii ''a''"] in_store dirty
  show ?thesis by simp
qed


section \<open>Tab store: tab ids\<close>

lemma decimal_digits: "d \<in> set (decimal n) \<Longrightarrow> d < 10"
  by (induction n rule: decimal.induct) (subst (asm) decimal.simps, auto split: if_splits)

lemma decimal_nonempty: "decimal n \<noteq> []"
  by (subst decimal.simps) simp

lemma decimal_value: "foldl (\<lambda>acc d. 10 * acc + d) 0 (decimal n) = n"
proof (induction n rule: decimal.induct)
  case (1 n)
  show ?case
  proof (cases "n < 10")
    case True
    then show ?thesis by (subst decimal.simps) simp
  next
    case False
    with 1 have "foldl (\<lambda>acc d. 10 * acc + d) 0 (decimal (n div 10)) = n div 10"
      by simp
    with False show ?thesis by (subst decimal.simps) simp
  qed
qed

lemma nextTab_tabs: "nextTab s = Inr s' \<Longrightarrow> tabs s' = tabs s"
  by (auto simp: nextTab_def Let_def split: if_splits option.splits)

lemma prevTab_tabs: "prevTab s = Inr s' \<Longrightarrow> tabs s' = tabs s"
  by (auto simp: prevTab_def Let_def split: if_splits option.splits)

lemma decimal_inj: "decimal a = decimal b \<Longrightarrow> a = b"
  by (metis decimal_value)

lemma digit_unit_inj:
  assumes "a < 10" and "b < 10" and "(of_nat (48 + a) :: 16 word) = of_nat (48 + b)"
  shows "a = b"
proof -
  from assms(3) have "unat (of_nat (48 + a) :: 16 word) = unat (of_nat (48 + b) :: 16 word)"
    by simp
  then have "(48 + a) mod 2 ^ LENGTH(16) = (48 + b) mod 2 ^ LENGTH(16)"
    by (simp only: unat_of_nat)
  with assms(1,2) show ?thesis by simp
qed

lemma num_to_string_inj: "num_to_string a = num_to_string b \<Longrightarrow> a = b"
proof -
  assume eq: "num_to_string a = num_to_string b"
  have "decimal a = decimal b"
  proof (rule map_inj_on [where f = "\<lambda>d. of_nat (48 + d) :: 16 word"])
    show "map (\<lambda>d. of_nat (48 + d) :: 16 word) (decimal a)
        = map (\<lambda>d. of_nat (48 + d)) (decimal b)"
      using eq by (simp only: num_to_string_def)
    show "inj_on (\<lambda>d. of_nat (48 + d) :: 16 word) (set (decimal a) \<union> set (decimal b))"
      by (rule inj_onI) (auto dest!: decimal_digits intro: digit_unit_inj)
  qed
  then show ?thesis by (rule decimal_inj)
qed

lemma num_to_string_no_dash: "0x2D \<notin> set (num_to_string n)"
proof
  assume "0x2D \<in> set (num_to_string n)"
  then have "0x2D \<in> (\<lambda>d. of_nat (48 + d) :: 16 word) ` set (decimal n)"
    by (simp only: num_to_string_def set_map)
  then obtain d where d: "d \<in> set (decimal n)" and eq: "(0x2D :: 16 word) = of_nat (48 + d)"
    by (rule imageE)
  from eq have "unat (0x2D :: 16 word) = unat (of_nat (48 + d) :: 16 word)"
    by (rule arg_cong)
  then have "unat (0x2D :: 16 word) = (48 + d) mod 2 ^ LENGTH(16)"
    by (simp only: unat_of_nat)
  with decimal_digits [OF d] show False by simp
qed

lemma before_separator_unique:
  assumes "xs @ s # ys = xs' @ s # ys'" and "s \<notin> set xs" and "s \<notin> set xs'"
  shows "xs = xs'"
proof -
  have "takeWhile (\<lambda>x. x \<noteq> s) (xs @ s # ys) = xs"
    using assms(2) by (subst takeWhile_append2) auto
  moreover have "takeWhile (\<lambda>x. x \<noteq> s) (xs' @ s # ys') = xs'"
    using assms(3) by (subst takeWhile_append2) auto
  ultimately show ?thesis using assms(1) by simp
qed

lemma generateTabId_counter:
  assumes "fst (generateTabId now k) = fst (generateTabId now' k')"
  shows "k = k'"
proof -
  from assms have "num_to_string (k + 1) @ 0x2D # num_to_string now
      = num_to_string (k' + 1) @ 0x2D # num_to_string now'"
    by (simp add: generateTabId_def ascii_def)
  then have "num_to_string (k + 1) = num_to_string (k' + 1)"
    by (rule before_separator_unique [OF _ num_to_string_no_dash num_to_string_no_dash])
  then show ?thesis by (auto dest: num_to_string_inj)
qed


lemma ids_generated_sub:
  assumes "ids_generated m" and "tabCounter m' = tabCounter m"
    and "distinct (map tab_id (tabs (tabState m')))"
    and "tab_id ` set (tabs (tabState m')) \<subseteq> tab_id ` set (tabs (tabState m))"
  shows "ids_generated m'"
  unfolding ids_generated_def
proof (intro conjI ballI)
  show "distinct (map tab_id (tabs (tabState m')))" by (rule assms(3))
next
  fix t assume "t \<in> set (tabs (tabState m'))"
  with assms(4) obtain u where "u \<in> set (tabs (tabState m))" and "tab_id u = tab_id t"
    by (metis (no_types, lifting) imageE imageI subsetD)
  with assms(1,2) show "\<exists>k now. k < tabCounter m' \<and> tab_id t = fst (generateTabId now k)"
    by (metis ids_generated_def)
qed

lemma distinct_take_filter_drop:
  assumes "distinct (map f xs)"
  shows "distinct (map f (take n xs @ filter P (drop n xs)))"
proof -
  from assms have "distinct (map f (take n xs @ drop n xs))" by simp
  then have d: "distinct (map f (take n xs))" "distinct (map f (drop n xs))"
    and i: "set (map f (take n xs)) \<inter> set (map f (drop n xs)) = {}"
    by (simp_all only: map_append distinct_append)
  from d(2) have "distinct (map f (filter P (drop n xs)))"
    by (rule distinct_map_filter)
  moreover from i have "set (map f (take n xs)) \<inter> set (map f (filter P (drop n xs))) = {}"
    by auto
  ultimately show ?thesis using d(1) by (simp only: map_append distinct_append simp_thms)
qed

lemma createTab_ids:
  assumes "ids_generated m"
  shows "ids_generated (snd (createTab fp c now m))"
proof -
  let ?i = "fst (generateTabId now (tabCounter m))"
  have new: "?i \<notin> tab_id ` set (tabs (tabState m))"
  proof
    assume "?i \<in> tab_id ` set (tabs (tabState m))"
    then obtain t where t: "t \<in> set (tabs (tabState m))" and "tab_id t = ?i" by auto
    with assms obtain k now' where "k < tabCounter m" and "?i = fst (generateTabId now' k)"
      by (metis ids_generated_def)
    then show False by (auto dest: generateTabId_counter)
  qed
  have tabs': "tabs (tabState (snd (createTab fp c now m)))
      = tabs (tabState m) @ [\<lparr>tab_id = ?i, filePath = fp, fileName = getFileName fp,
          content = c, savedContent = c, isDirty = False, cursorPosition = (1, 1)\<rparr>]"
    and counter': "tabCounter (snd (createTab fp c now m)) = tabCounter m + 1"
    by (simp_all add: createTab_def generateTabId_def Let_def)
  show ?thesis
    unfolding ids_generated_def tabs' counter'
  proof (intro conjI ballI)
    show "distinct (map tab_id (tabs (tabState m) @ [\<lparr>tab_id = ?i, filePath = fp,
        fileName = getFileName fp, content = c, savedContent = c, isDirty = False,
        cursorPosition = (1, 1)\<rparr>]))"
      using assms new by (simp add: ids_generated_def)
  next
    fix t
    assume "t \<in> set (tabs (tabState m) @ [\<lparr>tab_id = ?i, filePath = fp,
        fileName = getFileName fp, content = c, savedContent = c, isDirty = False,
        cursorPosition = (1, 1)\<rparr>])"
    then consider "t \<in> set (tabs (tabState m))" | "tab_id t = ?i" by auto
    then show "\<exists>k now. k < tabCounter m + 1 \<and> tab_id t = fst (generateTabId now k)"
    proof cases
      case 1
      with assms obtain k now' where "k < tabCounter m" and "tab_id t = fst (generateTabId now' k)"
        by (metis ids_generated_def)
      then show ?thesis by (metis less_SucI Suc_eq_plus1)
    next
      case 2
      then show ?thesis by (metis lessI Suc_eq_plus1)
    qed
  qed
qed


lemma ids_kept_same: "tabs s' = tabs s \<Longrightarrow> ids_kept s s'"
  by (simp add: ids_kept_def)

lemma ids_kept_filter: "tabs s' = filter P (tabs s) \<Longrightarrow> ids_kept s s'"
  by (auto simp: ids_kept_def distinct_map_filter)

lemma ids_kept_map:
  "tabs s' = map f (tabs s) \<Longrightarrow> (\<And>t. tab_id (f t) = tab_id t) \<Longrightarrow> ids_kept s s'"
  by (simp add: ids_kept_def comp_def image_image)

lemma closeTab_ids: "ids_kept s (snd (closeTab i s))"
proof (cases "tabs (snd (closeTab i s)) = tabs s")
  case True
  then show ?thesis by (rule ids_kept_same)
next
  case False
  then have "tabs (snd (closeTab i s)) = filter (\<lambda>t. tab_id t \<noteq> i) (tabs s)"
    by (auto simp: closeTab_def Let_def split: option.splits if_splits)
  then show ?thesis by (rule ids_kept_filter)
qed

lemma closeOtherTabs_ids: "ids_kept s (closeOtherTabs i s)"
  by (rule ids_kept_filter [where P = "\<lambda>t. tab_id t = i \<or> isDirty t"])
     (simp add: closeOtherTabs_def)

lemma closeTabsToRight_ids: "ids_kept s (closeTabsToRight i s)"
proof (cases "findIndex (\<lambda>t. tab_id t = i) (tabs s) = -1")
  case True
  then show ?thesis by (simp add: closeTabsToRight_def ids_kept_def)
next
  case False
  define n where "n = nat (findIndex (\<lambda>t. tab_id t = i) (tabs s) + 1)"
  from False have t: "tabs (closeTabsToRight i s)
      = take n (tabs s) @ filter isDirty (drop n (tabs s))"
    by (simp add: closeTabsToRight_def Let_def slice_to_def slice_from_def n_def)
  have "set (take n (tabs s) @ filter isDirty (drop n (tabs s))) \<subseteq> set (tabs s)"
    by (auto dest: in_set_takeD in_set_dropD)
  then show ?thesis
    unfolding ids_kept_def t by (auto simp only: distinct_take_filter_drop)
qed

lemma closeAllTabs_ids: "ids_kept s (closeAllTabs s)"
proof (cases "filter isDirty (tabs s) = []")
  case True
  then show ?thesis by (simp add: closeAllTabs_def ids_kept_def)
next
  case False
  then have "tabs (closeAllTabs s) = filter isDirty (tabs s)"
    by (simp add: closeAllTabs_def Let_def)
  then show ?thesis by (rule ids_kept_filter)
qed

lemma updateTabContent_ids: "ids_kept s (updateTabContent i c s)"
  by (rule ids_kept_map [where f = "\<lambda>tab. if tab_id tab = i
        then tab\<lparr>content := c, isDirty := (c \<noteq> savedContent tab)\<rparr> else tab"])
     (simp_all add: updateTabContent_def)

lemma updateTabCursor_ids: "ids_kept s (updateTabCursor i l c s)"
  by (rule ids_kept_map [where f = "\<lambda>tab. if tab_id tab = i
        then tab\<lparr>cursorPosition := (l, c)\<rparr> else tab"])
     (simp_all add: updateTabCursor_def)

lemma markTabSaved_ids: "ids_kept s (markTabSaved i fp s)"
  by (rule ids_kept_map [where f = "\<lambda>tab. if tab_id tab = i
        then (let p = (case fp of None \<Rightarrow> filePath tab | Some q \<Rightarrow> Some q)
              in tab\<lparr>savedContent := content tab, isDirty := False,
                     filePath := p, fileName := getFileName p\<rparr>)
        else tab"])
     (simp_all add: markTabSaved_def Let_def)

lemma on_store_ids:
  assumes "ids_generated m" and "ids_kept (tabState m) (f (tabState m))"
  shows "ids_generated (on_store f m)"
  using assms(1)
proof (rule ids_generated_sub)
  show "tabCounter (on_store f m) = tabCounter m" by simp
  from assms show "distinct (map tab_id (tabs (tabState (on_store f m))))"
    by (simp add: ids_kept_def ids_generated_def)
  from assms(2) show "tab_id ` set (tabs (tabState (on_store f m)))
      \<subseteq> tab_id ` set (tabs (tabState m))"
    by (simp add: ids_kept_def)
qed

lemma run_action_ids:
  assumes "ids_generated m"
  shows "ids_generated (run_action a m)"
proof (cases a)
  case (CreateTab fp c now)
  with assms show ?thesis by (simp add: createTab_ids)
next
  case (CloseTab i)
  with assms show ?thesis by (simp only: run_action.simps on_store_ids closeTab_ids)
next
  case (CloseOtherTabs i)
  with assms show ?thesis by (simp only: run_action.simps on_store_ids closeOtherTabs_ids)
next
  case (CloseTabsToRight i)
  with assms show ?thesis by (simp only: run_action.simps on_store_ids closeTabsToRight_ids)
next
  case CloseAllTabs
  with assms show ?thesis by (simp only: run_action.simps on_store_ids closeAllTabs_ids)
next
  case (SetActiveTab i)
  with assms show ?thesis
    by (simp only: run_action.simps) (rule on_store_ids, simp_all add: ids_kept_def setActiveTab_def)
next
  case (UpdateTabContent i c)
  with assms show ?thesis by (simp only: run_action.simps on_store_ids updateTabContent_ids)
next
  case (UpdateTabCursor i l c)
  with assms show ?thesis by (simp only: run_action.simps on_store_ids updateTabCursor_ids)
next
  case (MarkTabSaved i fp)
  with assms show ?thesis by (simp only: run_action.simps on_store_ids markTabSaved_ids)
next
  case NextTab
  have "ids_kept (tabState m) (case nextTab (tabState m) of Inl e \<Rightarrow> tabState m | Inr s' \<Rightarrow> s')"
    by (cases "nextTab (tabState m)") (simp_all add: ids_kept_same nextTab_tabs)
  with assms NextTab show ?thesis by (simp only: run_action.simps on_store_ids)
next
  case PrevTab
  have "ids_kept (tabState m) (case prevTab (tabState m) of Inl e \<Rightarrow> tabState m | Inr s' \<Rightarrow> s')"
    by (cases "prevTab (tabState m)") (simp_all add: ids_kept_same prevTab_tabs)
  with assms PrevTab show ?thesis by (simp only: run_action.simps on_store_ids)
qed

lemma run_actions_ids: "ids_generated m \<Longrightarrow> ids_generated (run_actions as m)"
  by (induction as arbitrary: m) (simp_all add: run_action_ids)

lemma reachable_ids_distinct:
  "distinct (map tab_id (tabs (tabState (run_actions as initialTabModule))))"
proof -
  have "ids_generated initialTabModule"
    by (simp add: ids_generated_def initialTabModule_def initialTabState_def)
  then have "ids_generated (run_actions as initialTabModule)"
    by (rule run_actions_ids)
  then show ?thesis by (simp add: ids_generated_def)
qed


section \<open>Tab store: closing one tab\<close>

lemma find_by_distinct_id:
  "distinct (map tab_id ts) \<Longrightarrow> t \<in> set ts \<Longrightarrow>
   find (\<lambda>x. tab_id x = tab_id t) ts = Some t"
proof (induction ts)
  case Nil
  then show ?case by simp
next
  case (Cons a ts)
  show ?case
  proof (cases "a = t")
    case True
    then show ?thesis by simp
  next
    case False
    with Cons.prems have "t \<in> set ts" by simp
    with Cons.prems have "tab_id a \<noteq> tab_id t" by auto
    with Cons \<open>t \<in> set ts\<close> show ?thesis by simp
  qed
qed

text \<open>
  C9. closeTab on the id of a tab whose isDirty flag is set returns false and leaves
  the tab list and activeTabId as they were; closeTab on an id that no tab of the list
  has returns true and leaves the state as it was. The tab an id names is the one
  \<open>find\<close> returns, the first of the list with that id. The ids of a list are distinct
  in every store that the actions produce from the initial one, so there the dirty tab
  is any dirty tab of the list.
\<close>

theorem closeTab_refusals:
  "(find (\<lambda>t. tab_id t = i) (tabs s) = Some t \<and> isDirty t \<longrightarrow> closeTab i s = (False, s))
 \<and> (distinct (map tab_id (tabs s)) \<and> u \<in> set (tabs s) \<and> isDirty u \<longrightarrow>
      closeTab (tab_id u) s = (False, s))
 \<and> (v \<in> set (tabs (tabState (run_actions as initialTabModule))) \<and> isDirty v \<longrightarrow>
      closeTab (tab_id v) (tabState (run_actions as initialTabModule))
        = (False, tabState (run_actions as initialTabModule)))
 \<and> (i \<notin> tab_id ` set (tabs s) \<longrightarrow> closeTab i s = (True, s))"
proof (intro conjI impI)
  assume "find (\<lambda>t. tab_id t = i) (tabs s) = Some t \<and> isDirty t"
  then show "closeTab i s = (False, s)"
    by (simp add: closeTab_def)
next
  assume a: "distinct (map tab_id (tabs s)) \<and> u \<in> set (tabs s) \<and> isDirty u"
  then have "find (\<lambda>x. tab_id x = tab_id u) (tabs s) = Some u"
    by (simp add: find_by_distinct_id)
  with a show "closeTab (tab_id u) s = (False, s)"
    by (simp add: closeTab_def)
next
  let ?s = "tabState (run_actions as initialTabModule)"
  assume a: "v \<in> set (tabs ?s) \<and> isDirty v"
  then have "find (\<lambda>x. tab_id x = tab_id v) (tabs ?s) = Some v"
    by (simp add: find_by_distinct_id reachable_ids_distinct)
  with a show "closeTab (tab_id v) ?s = (False, ?s)"
    by (simp add: closeTab_def)
next
  assume "i \<notin> tab_id ` set (tabs s)"
  then have "find (\<lambda>t. tab_id t = i) (tabs s) = None"
    by (auto simp: find_None_iff)
  then show "closeTab i s = (True, s)"
    by (simp add: closeTab_def)
qed

theorem closeTab_refusals_witness:
  "find (\<lambda>t. tab_id t = ascii ''b'') (tabs demo_store) = Some (demo_tab ''b'' ''y'' ''x'')
 \<and> isDirty (demo_tab ''b'' ''y'' ''x'')
 \<and> distinct (map tab_id (tabs demo_store))
 \<and> demo_tab ''b'' ''y'' ''x'' \<in> set (tabs demo_store)
 \<and> closeTab (ascii ''b'') demo_store = (False, demo_store)
 \<and> ascii ''z'' \<notin> tab_id ` set (tabs demo_store)
 \<and> closeTab (ascii ''z'') demo_store = (True, demo_store)"
proof -
  have found: "find (\<lambda>t. tab_id t = ascii ''b'') (tabs demo_store)
                 = Some (demo_tab ''b'' ''y'' ''x'')"
    by (simp add: demo_store_def demo_tab_def)
  have dirty: "isDirty (demo_tab ''b'' ''y'' ''x'')"
    by (simp add: demo_tab_def)
  have ids: "distinct (map tab_id (tabs demo_store))"
    by (simp add: demo_store_def demo_tab_def)
  have member: "demo_tab ''b'' ''y'' ''x'' \<in> set (tabs demo_store)"
    by (simp add: demo_store_def)
  have absent: "ascii ''z'' \<notin> tab_id ` set (tabs demo_store)"
    by (simp add: demo_store_def demo_tab_def)
  from closeTab_refusals [of "ascii ''b''" demo_store "demo_tab ''b'' ''y'' ''x''"
         "demo_tab ''b'' ''y'' ''x''"]
       closeTab_refusals [of "ascii ''z''" demo_store]
       found dirty ids member absent
  show ?thesis by blast
qed

section \<open>Tab store: the dirty flag\<close>

lemma dirty_consistent_filter: "dirty_consistent ts \<Longrightarrow> dirty_consistent (filter P ts)"
  by (simp add: dirty_consistent_def list_all_iff)

lemma dirty_consistent_append:
  "dirty_consistent (xs @ ys) \<longleftrightarrow> dirty_consistent xs \<and> dirty_consistent ys"
  by (simp add: dirty_consistent_def)

lemma dirty_consistent_take: "dirty_consistent ts \<Longrightarrow> dirty_consistent (take n ts)"
  by (auto simp: dirty_consistent_def list_all_iff dest: in_set_takeD)

lemma dirty_consistent_drop: "dirty_consistent ts \<Longrightarrow> dirty_consistent (drop n ts)"
  by (auto simp: dirty_consistent_def list_all_iff dest: in_set_dropD)

lemma createTab_consistent:
  "dirty_consistent (tabs (tabState m)) \<Longrightarrow>
   dirty_consistent (tabs (tabState (snd (createTab fp c now m))))"
  by (simp add: createTab_def Let_def dirty_consistent_def split: prod.splits)

lemma closeTab_consistent:
  "dirty_consistent (tabs s) \<Longrightarrow> dirty_consistent (tabs (snd (closeTab i s)))"
  by (simp add: closeTab_def Let_def dirty_consistent_filter split: option.splits)

lemma closeOtherTabs_consistent:
  "dirty_consistent (tabs s) \<Longrightarrow> dirty_consistent (tabs (closeOtherTabs i s))"
  by (simp add: closeOtherTabs_def dirty_consistent_filter)

lemma closeTabsToRight_consistent:
  "dirty_consistent (tabs s) \<Longrightarrow> dirty_consistent (tabs (closeTabsToRight i s))"
  by (simp add: closeTabsToRight_def Let_def slice_to_def slice_from_def
      dirty_consistent_append dirty_consistent_filter dirty_consistent_take
      dirty_consistent_drop)

lemma closeAllTabs_consistent:
  "dirty_consistent (tabs s) \<Longrightarrow> dirty_consistent (tabs (closeAllTabs s))"
  by (simp add: closeAllTabs_def Let_def dirty_consistent_filter)
     (simp add: dirty_consistent_def)

lemma updateTabContent_consistent:
  "dirty_consistent (tabs s) \<Longrightarrow> dirty_consistent (tabs (updateTabContent i c s))"
  by (auto simp: updateTabContent_def dirty_consistent_def list_all_iff)

lemma updateTabCursor_consistent:
  "dirty_consistent (tabs s) \<Longrightarrow> dirty_consistent (tabs (updateTabCursor i l c s))"
  by (auto simp: updateTabCursor_def dirty_consistent_def list_all_iff)

lemma markTabSaved_consistent:
  "dirty_consistent (tabs s) \<Longrightarrow> dirty_consistent (tabs (markTabSaved i fp s))"
  by (auto simp: markTabSaved_def dirty_consistent_def list_all_iff Let_def)

lemma run_action_consistent:
  assumes "dirty_consistent (tabs (tabState m))"
  shows "dirty_consistent (tabs (tabState (run_action a m)))"
proof (cases a)
  case (CreateTab fp c now)
  with assms show ?thesis by (simp add: createTab_consistent)
next
  case (CloseTab i)
  with assms show ?thesis by (simp add: closeTab_consistent)
next
  case (CloseOtherTabs i)
  with assms show ?thesis by (simp add: closeOtherTabs_consistent)
next
  case (CloseTabsToRight i)
  with assms show ?thesis by (simp add: closeTabsToRight_consistent)
next
  case CloseAllTabs
  with assms show ?thesis by (simp add: closeAllTabs_consistent)
next
  case (SetActiveTab i)
  with assms show ?thesis by (simp add: setActiveTab_def)
next
  case (UpdateTabContent i c)
  with assms show ?thesis by (simp add: updateTabContent_consistent)
next
  case (UpdateTabCursor i l c)
  with assms show ?thesis by (simp add: updateTabCursor_consistent)
next
  case (MarkTabSaved i fp)
  with assms show ?thesis by (simp add: markTabSaved_consistent)
next
  case NextTab
  with assms show ?thesis
    by (cases "nextTab (tabState m)") (simp_all add: nextTab_tabs)
next
  case PrevTab
  with assms show ?thesis
    by (cases "prevTab (tabState m)") (simp_all add: prevTab_tabs)
qed

lemma run_actions_consistent:
  "dirty_consistent (tabs (tabState m)) \<Longrightarrow>
   dirty_consistent (tabs (tabState (run_actions as m)))"
  by (induction as arbitrary: m) (simp_all add: run_action_consistent)

lemma updateTabContent_target:
  assumes "t \<in> set (tabs (updateTabContent i c s))" and "tab_id t = i"
  shows "content t = c \<and> isDirty t = (c \<noteq> savedContent t)"
proof -
  from assms(1) obtain x where x: "x \<in> set (tabs s)"
    and t: "t = (if tab_id x = i
                 then x\<lparr>content := c, isDirty := (c \<noteq> savedContent x)\<rparr> else x)"
    unfolding updateTabContent_def by auto
  show ?thesis
  proof (cases "tab_id x = i")
    case True
    with t show ?thesis by simp
  next
    case False
    with t assms(2) show ?thesis by simp
  qed
qed

lemma markTabSaved_target:
  assumes "t \<in> set (tabs (markTabSaved i fp s))" and "tab_id t = i"
  shows "savedContent t = content t \<and> \<not> isDirty t"
proof -
  from assms(1) obtain x where x: "x \<in> set (tabs s)"
    and t: "t = (if tab_id x = i
                 then (let p = (case fp of None \<Rightarrow> filePath x | Some q \<Rightarrow> Some q)
                       in x\<lparr>savedContent := content x, isDirty := False,
                             filePath := p, fileName := getFileName p\<rparr>)
                 else x)"
    unfolding markTabSaved_def by auto
  show ?thesis
  proof (cases "tab_id x = i")
    case True
    with t show ?thesis by (simp add: Let_def)
  next
    case False
    with t assms(2) show ?thesis by simp
  qed
qed

lemma updateTabContent_restore:
  assumes "t \<in> set (tabs s)" and "tab_id t = i"
  shows "t\<lparr>content := savedContent t, isDirty := False\<rparr>
        \<in> set (tabs (updateTabContent i (savedContent t) s))"
proof -
  let ?f = "\<lambda>tab. if tab_id tab = i
       then tab\<lparr>content := savedContent t, isDirty := (savedContent t \<noteq> savedContent tab)\<rparr>
       else tab"
  have "?f t \<in> ?f ` set (tabs s)"
    using assms(1) by (rule imageI)
  moreover have "?f t = t\<lparr>content := savedContent t, isDirty := False\<rparr>"
    using assms(2) by simp
  ultimately show ?thesis
    by (simp add: updateTabContent_def)
qed

lemma updateTabContent_sets:
  assumes "u \<in> set (tabs s)" and "tab_id u = i"
  shows "u\<lparr>content := c, isDirty := (c \<noteq> savedContent u)\<rparr>
        \<in> set (tabs (updateTabContent i c s))"
proof -
  let ?f = "\<lambda>tab. if tab_id tab = i
       then tab\<lparr>content := c, isDirty := (c \<noteq> savedContent tab)\<rparr> else tab"
  have "?f u \<in> ?f ` set (tabs s)"
    using assms(1) by (rule imageI)
  moreover have "?f u = u\<lparr>content := c, isDirty := (c \<noteq> savedContent u)\<rparr>"
    using assms(2) by simp
  ultimately show ?thesis
    by (simp add: updateTabContent_def)
qed

lemma markTabSaved_saves:
  assumes "u \<in> set (tabs s)" and "tab_id u = i"
  shows "u\<lparr>savedContent := content u, isDirty := False,
           filePath := (case fp of None \<Rightarrow> filePath u | Some q \<Rightarrow> Some q),
           fileName := getFileName (case fp of None \<Rightarrow> filePath u | Some q \<Rightarrow> Some q)\<rparr>
        \<in> set (tabs (markTabSaved i fp s))"
proof -
  let ?f = "\<lambda>tab. if tab_id tab = i
       then (let p = (case fp of None \<Rightarrow> filePath tab | Some q \<Rightarrow> Some q)
             in tab\<lparr>savedContent := content tab, isDirty := False,
                    filePath := p, fileName := getFileName p\<rparr>)
       else tab"
  have "?f u \<in> ?f ` set (tabs s)"
    using assms(1) by (rule imageI)
  moreover have "?f u = u\<lparr>savedContent := content u, isDirty := False,
           filePath := (case fp of None \<Rightarrow> filePath u | Some q \<Rightarrow> Some q),
           fileName := getFileName (case fp of None \<Rightarrow> filePath u | Some q \<Rightarrow> Some q)\<rparr>"
    using assms(2) by (simp add: Let_def)
  ultimately show ?thesis
    by (simp add: markTabSaved_def)
qed

lemma other_tabs_kept:
  assumes "u \<in> set (tabs s)" and "tab_id u \<noteq> i"
  shows "u \<in> set (tabs (updateTabContent i c s))"
    and "u \<in> set (tabs (markTabSaved i fp s))"
proof -
  let ?f = "\<lambda>tab. if tab_id tab = i
       then tab\<lparr>content := c, isDirty := (c \<noteq> savedContent tab)\<rparr> else tab"
  let ?g = "\<lambda>tab. if tab_id tab = i
       then (let p = (case fp of None \<Rightarrow> filePath tab | Some q \<Rightarrow> Some q)
             in tab\<lparr>savedContent := content tab, isDirty := False,
                    filePath := p, fileName := getFileName p\<rparr>)
       else tab"
  have "?f u \<in> ?f ` set (tabs s)" "?g u \<in> ?g ` set (tabs s)"
    using assms(1) by (rule imageI)+
  moreover have "?f u = u" "?g u = u"
    using assms(2) by simp_all
  ultimately show "u \<in> set (tabs (updateTabContent i c s))"
    and "u \<in> set (tabs (markTabSaved i fp s))"
    by (simp_all add: updateTabContent_def markTabSaved_def)
qed

lemma map_field_kept:
  "(\<And>x. g (f x) = g x) \<Longrightarrow> map g (map f xs) = map g xs"
  by (simp add: comp_def)

lemma updateTabContent_shape:
  "map tab_id (tabs (updateTabContent i c s)) = map tab_id (tabs s)"
  "map savedContent (tabs (updateTabContent i c s)) = map savedContent (tabs s)"
  unfolding updateTabContent_def by (simp_all add: map_field_kept)

lemma markTabSaved_shape:
  "map tab_id (tabs (markTabSaved i fp s)) = map tab_id (tabs s)"
  "map content (tabs (markTabSaved i fp s)) = map content (tabs s)"
  unfolding markTabSaved_def by (simp_all add: map_field_kept Let_def)

lemma createTab_tabs:
  "tabs (tabState (snd (createTab fp c now m)))
     = tabs (tabState m) @ [\<lparr>tab_id = fst (createTab fp c now m), filePath = fp,
         fileName = getFileName fp, content = c, savedContent = c, isDirty = False,
         cursorPosition = (1, 1)\<rparr>]"
  by (simp add: createTab_def generateTabId_def Let_def)


text \<open>
  C10. Every action of the tab store keeps the invariant that each tab's isDirty flag
  is set exactly when its content differs from its savedContent, and the invariant
  holds after any sequence of actions from the initial store. In particular
  updateTabContent on a tab gives it the new content and the flag of the comparison
  with savedContent, so writing the saved content back clears the flag; and
  markTabSaved leaves the tab with savedContent equal to content and the flag cleared.
  Both change the tabs with the given id only, in place: the tab with the new content
  (and for markTabSaved the tab with its content as savedContent, the flag cleared and
  the path and name set) is in the list afterwards, every other tab is kept, the ids
  stay as they were in their order, updateTabContent keeps every savedContent and
  markTabSaved every content. createTab appends a clean tab whose savedContent is its
  content.
\<close>

theorem dirty_flag_invariant:
  "(dirty_consistent (tabs (tabState m)) \<longrightarrow>
      dirty_consistent (tabs (tabState (run_action a m))))
 \<and> dirty_consistent (tabs (tabState (run_actions as initialTabModule)))
 \<and> (t \<in> set (tabs (updateTabContent i c s)) \<and> tab_id t = i \<longrightarrow>
      content t = c \<and> isDirty t = (c \<noteq> savedContent t))
 \<and> (u \<in> set (tabs s) \<and> tab_id u = i \<longrightarrow>
      u\<lparr>content := savedContent u, isDirty := False\<rparr>
        \<in> set (tabs (updateTabContent i (savedContent u) s)))
 \<and> (v \<in> set (tabs (markTabSaved i fp s)) \<and> tab_id v = i \<longrightarrow>
      savedContent v = content v \<and> \<not> isDirty v)
 \<and> (u \<in> set (tabs s) \<and> tab_id u = i \<longrightarrow>
      u\<lparr>content := c, isDirty := (c \<noteq> savedContent u)\<rparr>
        \<in> set (tabs (updateTabContent i c s))
    \<and> u\<lparr>savedContent := content u, isDirty := False,
          filePath := (case fp of None \<Rightarrow> filePath u | Some q \<Rightarrow> Some q),
          fileName := getFileName (case fp of None \<Rightarrow> filePath u | Some q \<Rightarrow> Some q)\<rparr>
        \<in> set (tabs (markTabSaved i fp s)))
 \<and> (y \<in> set (tabs s) \<and> tab_id y \<noteq> i \<longrightarrow>
      y \<in> set (tabs (updateTabContent i c s)) \<and> y \<in> set (tabs (markTabSaved i fp s)))
 \<and> map tab_id (tabs (updateTabContent i c s)) = map tab_id (tabs s)
 \<and> map savedContent (tabs (updateTabContent i c s)) = map savedContent (tabs s)
 \<and> map tab_id (tabs (markTabSaved i fp s)) = map tab_id (tabs s)
 \<and> map content (tabs (markTabSaved i fp s)) = map content (tabs s)
 \<and> tabs (tabState (snd (createTab fp c now m)))
      = tabs (tabState m) @ [\<lparr>tab_id = fst (createTab fp c now m), filePath = fp,
          fileName = getFileName fp, content = c, savedContent = c, isDirty = False,
          cursorPosition = (1, 1)\<rparr>]"
proof (intro conjI impI)
  assume "dirty_consistent (tabs (tabState m))"
  then show "dirty_consistent (tabs (tabState (run_action a m)))"
    by (rule run_action_consistent)
next
  show "dirty_consistent (tabs (tabState (run_actions as initialTabModule)))"
    by (rule run_actions_consistent)
       (simp add: initialTabModule_def initialTabState_def dirty_consistent_def)
next
  assume "t \<in> set (tabs (updateTabContent i c s)) \<and> tab_id t = i"
  then show "content t = c" and "isDirty t = (c \<noteq> savedContent t)"
    using updateTabContent_target by blast+
next
  assume "u \<in> set (tabs s) \<and> tab_id u = i"
  then show "u\<lparr>content := savedContent u, isDirty := False\<rparr>
        \<in> set (tabs (updateTabContent i (savedContent u) s))"
    using updateTabContent_restore by blast
next
  assume "v \<in> set (tabs (markTabSaved i fp s)) \<and> tab_id v = i"
  then show "savedContent v = content v" and "\<not> isDirty v"
    using markTabSaved_target by blast+
next
  assume a: "u \<in> set (tabs s) \<and> tab_id u = i"
  then show "u\<lparr>content := c, isDirty := (c \<noteq> savedContent u)\<rparr>
        \<in> set (tabs (updateTabContent i c s))"
    by (simp add: updateTabContent_sets)
  from a show "u\<lparr>savedContent := content u, isDirty := False,
          filePath := (case fp of None \<Rightarrow> filePath u | Some q \<Rightarrow> Some q),
          fileName := getFileName (case fp of None \<Rightarrow> filePath u | Some q \<Rightarrow> Some q)\<rparr>
        \<in> set (tabs (markTabSaved i fp s))"
    by (simp add: markTabSaved_saves)
next
  assume a: "y \<in> set (tabs s) \<and> tab_id y \<noteq> i"
  then show "y \<in> set (tabs (updateTabContent i c s))"
    by (simp add: other_tabs_kept(1))
  from a show "y \<in> set (tabs (markTabSaved i fp s))"
    by (simp add: other_tabs_kept(2))
next
  show "map tab_id (tabs (updateTabContent i c s)) = map tab_id (tabs s)"
    by (rule updateTabContent_shape(1))
  show "map savedContent (tabs (updateTabContent i c s)) = map savedContent (tabs s)"
    by (rule updateTabContent_shape(2))
  show "map tab_id (tabs (markTabSaved i fp s)) = map tab_id (tabs s)"
    by (rule markTabSaved_shape(1))
  show "map content (tabs (markTabSaved i fp s)) = map content (tabs s)"
    by (rule markTabSaved_shape(2))
  show "tabs (tabState (snd (createTab fp c now m)))
      = tabs (tabState m) @ [\<lparr>tab_id = fst (createTab fp c now m), filePath = fp,
          fileName = getFileName fp, content = c, savedContent = c, isDirty = False,
          cursorPosition = (1, 1)\<rparr>]"
    by (rule createTab_tabs)
qed

theorem dirty_flag_invariant_witness:
  "dirty_consistent (tabs (tabState demo_module))
 \<and> dirty_consistent (tabs (tabState
       (run_action (UpdateTabContent (ascii ''b'') (ascii ''x'')) demo_module)))
 \<and> demo_tab ''b'' ''x'' ''x''
       \<in> set (tabs (updateTabContent (ascii ''b'') (ascii ''x'') demo_store))
 \<and> \<not> isDirty (demo_tab ''b'' ''x'' ''x'')
 \<and> demo_tab ''b'' ''y'' ''x'' \<in> set (tabs demo_store)
 \<and> demo_tab ''b'' ''x'' ''x''
       \<in> set (tabs (updateTabContent (ascii ''b'') (savedContent (demo_tab ''b'' ''y'' ''x''))
                      demo_store))
 \<and> demo_tab ''b'' ''y'' ''y'' \<in> set (tabs (markTabSaved (ascii ''b'') None demo_store))
 \<and> savedContent (demo_tab ''b'' ''y'' ''y'') = content (demo_tab ''b'' ''y'' ''y'')
 \<and> demo_tab ''a'' ''x'' ''x'' \<in> set (tabs demo_store)
 \<and> tab_id (demo_tab ''a'' ''x'' ''x'') \<noteq> ascii ''b''
 \<and> demo_tab ''a'' ''x'' ''x'' \<in> set (tabs (markTabSaved (ascii ''b'') None demo_store))
 \<and> map content (tabs (markTabSaved (ascii ''b'') None demo_store))
      = [ascii ''x'', ascii ''y'', []]"
proof -
  have inv: "dirty_consistent (tabs (tabState demo_module))"
    by (simp add: demo_module_def demo_store_def demo_tab_def dirty_consistent_def)
  have upd: "demo_tab ''b'' ''x'' ''x''
       \<in> set (tabs (updateTabContent (ascii ''b'') (ascii ''x'') demo_store))"
    by (simp add: updateTabContent_def demo_store_def demo_tab_def)
  have old: "demo_tab ''b'' ''y'' ''x'' \<in> set (tabs demo_store)"
    by (simp add: demo_store_def)
  have other: "demo_tab ''a'' ''x'' ''x'' \<in> set (tabs demo_store)"
    by (simp add: demo_store_def)
  have other_id: "tab_id (demo_tab ''a'' ''x'' ''x'') \<noteq> ascii ''b''"
    by (simp add: demo_tab_def)
  have ids: "tab_id (demo_tab ''b'' ''x'' ''x'') = ascii ''b''"
    "tab_id (demo_tab ''b'' ''y'' ''x'') = ascii ''b''"
    "tab_id (demo_tab ''b'' ''y'' ''y'') = ascii ''b''"
    by (simp_all add: demo_tab_def)
  have clean: "\<not> isDirty (demo_tab ''b'' ''x'' ''x'')"
    by (simp add: demo_tab_def)
  have restored: "(demo_tab ''b'' ''y'' ''x'')
       \<lparr>content := savedContent (demo_tab ''b'' ''y'' ''x''), isDirty := False\<rparr>
     = demo_tab ''b'' ''x'' ''x''"
    by (simp add: demo_tab_def)
  have saved_tab: "(demo_tab ''b'' ''y'' ''x'')
       \<lparr>savedContent := content (demo_tab ''b'' ''y'' ''x''), isDirty := False,
        filePath := (case None of None \<Rightarrow> filePath (demo_tab ''b'' ''y'' ''x'')
                     | Some q \<Rightarrow> Some q),
        fileName := getFileName (case None of None \<Rightarrow> filePath (demo_tab ''b'' ''y'' ''x'')
                                 | Some q \<Rightarrow> Some q)\<rparr>
     = demo_tab ''b'' ''y'' ''y''"
    by (simp add: demo_tab_def getFileName_def)
  have contents: "map content (tabs demo_store) = [ascii ''x'', ascii ''y'', []]"
    by (simp add: demo_store_def demo_tab_def ascii_def)
  note inst = dirty_flag_invariant
         [where m = demo_module and a = "UpdateTabContent (ascii ''b'') (ascii ''x'')"
            and i = "ascii ''b''" and c = "ascii ''x''" and s = demo_store
            and t = "demo_tab ''b'' ''x'' ''x''" and u = "demo_tab ''b'' ''y'' ''x''"
            and v = "demo_tab ''b'' ''y'' ''y''" and fp = None
            and as = "[CloseAllTabs]" and y = "demo_tab ''a'' ''x'' ''x''" and now = 5]
  from inst inv have step: "dirty_consistent (tabs (tabState
       (run_action (UpdateTabContent (ascii ''b'') (ascii ''x'')) demo_module)))"
    by blast
  from inst old ids(2) have "(demo_tab ''b'' ''y'' ''x'')
       \<lparr>content := savedContent (demo_tab ''b'' ''y'' ''x''), isDirty := False\<rparr>
       \<in> set (tabs (updateTabContent (ascii ''b'') (savedContent (demo_tab ''b'' ''y'' ''x''))
                      demo_store))"
    by blast
  then have restored_in: "demo_tab ''b'' ''x'' ''x''
       \<in> set (tabs (updateTabContent (ascii ''b'') (savedContent (demo_tab ''b'' ''y'' ''x''))
                      demo_store))"
    by (simp only: restored)
  from inst old ids(2) have "(demo_tab ''b'' ''y'' ''x'')
       \<lparr>savedContent := content (demo_tab ''b'' ''y'' ''x''), isDirty := False,
        filePath := (case None of None \<Rightarrow> filePath (demo_tab ''b'' ''y'' ''x'')
                     | Some q \<Rightarrow> Some q),
        fileName := getFileName (case None of None \<Rightarrow> filePath (demo_tab ''b'' ''y'' ''x'')
                                 | Some q \<Rightarrow> Some q)\<rparr>
       \<in> set (tabs (markTabSaved (ascii ''b'') None demo_store))"
    by blast
  then have saved: "demo_tab ''b'' ''y'' ''y''
       \<in> set (tabs (markTabSaved (ascii ''b'') None demo_store))"
    by (simp only: saved_tab)
  from inst saved ids(3)
  have eq: "savedContent (demo_tab ''b'' ''y'' ''y'') = content (demo_tab ''b'' ''y'' ''y'')"
    by blast
  from inst other other_id
  have kept: "demo_tab ''a'' ''x'' ''x'' \<in> set (tabs (markTabSaved (ascii ''b'') None demo_store))"
    by blast
  from inst have "map content (tabs (markTabSaved (ascii ''b'') None demo_store))
      = map content (tabs demo_store)"
    by blast
  then have same: "map content (tabs (markTabSaved (ascii ''b'') None demo_store))
      = [ascii ''x'', ascii ''y'', []]"
    by (simp only: contents)
  from inv step upd clean old restored_in saved eq other other_id kept same show ?thesis
    by (intro conjI)
qed

section \<open>Renderer bridge: listeners and their disposers\<close>

lemma remove_last_snoc: "remove_last x (xs @ [x]) = xs"
  by (simp add: remove_last_def)

lemma mset_remove_last: "mset (remove_last x xs) = mset xs - {#x#}"
  by (simp add: remove_last_def)

lemma filter_remove_last:
  "filter (\<lambda>y. y \<noteq> x) (remove_last x xs) = filter (\<lambda>y. y \<noteq> x) xs"
proof -
  have "filter (\<lambda>y. y \<noteq> x) (remove1 x ys) = filter (\<lambda>y. y \<noteq> x) ys" for ys
    by (induction ys) auto
  then show ?thesis
    by (simp add: remove_last_def rev_filter [symmetric])
qed

lemma subscribe_registers:
  assumes "subscribe op cb r = (d, r1)"
  shows "d = (channel_of op, (allocated r, cb))"
    and "listeners r1 = (listeners r)(channel_of op := listeners r (channel_of op) @ [snd d])"
    and "allocated r1 = allocated r + 1"
  using assms by (auto simp: subscribe_def ipc_on_def Let_def)

lemma dispose_after_subscribe:
  assumes "subscribe op cb r = (d, r1)"
  shows "listeners (dispose d r1) = listeners r"
proof -
  have "listeners (dispose d r1) c = listeners r c" for c
    using assms
    by (auto simp: subscribe_def ipc_on_def Let_def dispose_def ipc_removeListener_def
        remove_last_snoc)
  then show ?thesis by (rule ext)
qed

lemma dispose_mset:
  "mset (listeners (dispose d r) c) =
     (if c = fst d then mset (listeners r c) - {#snd d#} else mset (listeners r c))"
  by (simp add: dispose_def ipc_removeListener_def mset_remove_last)

lemma dispose_others:
  "filter (\<lambda>h. h \<noteq> snd d) (listeners (dispose d r) c) =
   filter (\<lambda>h. h \<noteq> snd d) (listeners r c)"
  by (simp add: dispose_def ipc_removeListener_def filter_remove_last)

text \<open>
  C5, as the code has it. The bridge exposes a listener function for four of the five
  event kinds (diagnostics, log, error, close): each allocates a handler, appends it to
  the listeners of its channel and returns a disposer for that channel and handler.
  Calling the disposer right away restores the listeners as they were; called in any
  state, it removes one instance of that handler from that channel and leaves every
  other handler of every channel in place and in order.
\<close>

theorem lsp_listener_disposer:
  "subscription_for Diagnostics = Some OnDiagnostics
 \<and> subscription_for Log = Some OnLog
 \<and> subscription_for Error = Some OnError
 \<and> subscription_for Close = Some OnClose
 \<and> (subscribe op cb r = (d, r1) \<longrightarrow>
      d = (channel_of op, (allocated r, cb))
    \<and> listeners r1 = (listeners r)(channel_of op := listeners r (channel_of op) @ [snd d])
    \<and> listeners (dispose d r1) = listeners r)
 \<and> mset (listeners (dispose e r2) c) =
      (if c = fst e then mset (listeners r2 c) - {#snd e#} else mset (listeners r2 c))
 \<and> filter (\<lambda>h. h \<noteq> snd e) (listeners (dispose e r2) c) =
      filter (\<lambda>h. h \<noteq> snd e) (listeners r2 c)"
proof (intro conjI impI)
  show "subscription_for Diagnostics = Some OnDiagnostics"
    by (simp add: subscription_for_def lsp_listener_ops_def)
  show "subscription_for Log = Some OnLog"
    by (simp add: subscription_for_def lsp_listener_ops_def)
  show "subscription_for Error = Some OnError"
    by (simp add: subscription_for_def lsp_listener_ops_def)
  show "subscription_for Close = Some OnClose"
    by (simp add: subscription_for_def lsp_listener_ops_def)
next
  assume s: "subscribe op cb r = (d, r1)"
  show "d = (channel_of op, (allocated r, cb))"
    using s by (rule subscribe_registers(1))
  show "listeners r1 = (listeners r)(channel_of op := listeners r (channel_of op) @ [snd d])"
    using s by (rule subscribe_registers(2))
  show "listeners (dispose d r1) = listeners r"
    using s by (rule dispose_after_subscribe)
next
  show "mset (listeners (dispose e r2) c) =
      (if c = fst e then mset (listeners r2 c) - {#snd e#} else mset (listeners r2 c))"
    by (rule dispose_mset)
  show "filter (\<lambda>h. h \<noteq> snd e) (listeners (dispose e r2) c) =
      filter (\<lambda>h. h \<noteq> snd e) (listeners r2 c)"
    by (rule dispose_others)
qed

theorem lsp_listener_disposer_witness:
  "subscribe OnLog ''second'' demo_renderer = (demo_disposer, demo_renderer_subscribed)
 \<and> listeners demo_renderer_subscribed ''lsp:log'' = [(0, ''first''), (1, ''second'')]
 \<and> listeners (dispose demo_disposer demo_renderer_subscribed) = listeners demo_renderer"
proof -
  have s: "subscribe OnLog ''second'' demo_renderer = (demo_disposer, demo_renderer_subscribed)"
    by (simp add: subscribe_def ipc_on_def demo_renderer_def demo_disposer_def
        demo_renderer_subscribed_def Let_def)
  have l: "listeners demo_renderer_subscribed ''lsp:log'' = [(0, ''first''), (1, ''second'')]"
    by (simp add: demo_renderer_subscribed_def)
  from lsp_listener_disposer
         [where op = OnLog and cb = "''second''" and r = demo_renderer
            and d = demo_disposer and ?r1.0 = demo_renderer_subscribed] s l
  show ?thesis by blast
qed

text \<open>
  The claim as stated fails for showMessage: the main process forwards it on
  \<open>lsp:showMessage\<close>, and none of the exposed listener functions listens there.
\<close>

theorem showMessage_has_no_listener_op:
  "subscription_for ShowMessage = None
 \<and> forward_channel ShowMessage \<notin> set (map channel_of lsp_listener_ops)"
  by (simp add: subscription_for_def lsp_listener_ops_def)

section \<open>Language client: one session at a time\<close>

lemma getLSPClient_ok:
  "session_ok w \<Longrightarrow> getLSPClient w = (c, w1) \<Longrightarrow> session_ok w1 \<and> lspClient w1 = Some c \<and> os w1 = os w"
  by (auto simp: getLSPClient_def session_ok_def client_processes_def newClient_def split: option.splits)

lemma client_ok_iff:
  "client_ok c sys \<longleftrightarrow>
     children sys = (case process c of None \<Rightarrow> [] | Some pid \<Rightarrow> [pid])
   \<and> (state c = Running \<longleftrightarrow> process c \<noteq> None)
   \<and> (state c = Stopped \<or> state c = Running \<or> state c = Crashed)
   \<and> (state c \<noteq> Running \<longrightarrow> pending c = [])"
  by (simp add: client_ok_def session_ok_def client_processes_def)

lemma client_start_ok:
  "client_ok c sys \<Longrightarrow> client_start p s h c sys = (r, c', sys') \<Longrightarrow> client_ok c' sys'"
  by (auto simp: client_ok_iff client_start_def closeAll_def force_terminate_def
      write_frame_def Let_def split: if_splits spawn_outcome.splits handshake_outcome.splits option.splits)

lemma process_exited_ok:
  "client_ok c sys \<Longrightarrow> process_exited c sys = (c', sys') \<Longrightarrow> client_ok c' sys'"
  by (auto simp: client_ok_iff process_exited_def closeAll_def Let_def split: if_splits option.splits)

lemma client_request_ok:
  "client_ok c sys \<Longrightarrow> client_request m p out c sys = (r, c', sys') \<Longrightarrow> client_ok c' sys'"
  by (auto simp: client_ok_iff client_request_def process_exited_def closeAll_def write_frame_def Let_def
      split: if_splits option.splits request_outcome.splits)

lemma client_notify_ok:
  "client_ok c sys \<Longrightarrow> client_notify m p c sys = (r, c', sys') \<Longrightarrow> client_ok c' sys'"
  by (auto simp: client_ok_iff client_notify_def write_frame_def Let_def
      split: if_splits option.splits)

lemma destroy_ok: "session_ok w \<Longrightarrow> session_ok (destroyLSPClient w)"
  by (auto simp: session_ok_def destroyLSPClient_def closeAll_def force_terminate_def
      client_processes_def Let_def split: option.splits)


lemma client_ok_handlers [simp]: "client_ok (c\<lparr>handlers := hs\<rparr>) sys = client_ok c sys"
  by (simp add: client_ok_iff)

lemma session_ok_Some: "session_ok \<lparr>lspClient = Some c, os = sys\<rparr> = client_ok c sys"
  by (simp add: client_ok_def)

lemma session_client_ok:
  "session_ok w \<Longrightarrow> lspClient w = Some c \<Longrightarrow> client_ok c (os w)"
  by (cases w) (simp add: client_ok_def)

lemma lsp_start_ok: "session_ok w \<Longrightarrow> session_ok (snd (lsp_start p s h w))"
proof -
  assume ok: "session_ok w"
  obtain c w1 where g: "getLSPClient w = (c, w1)" by (cases "getLSPClient w")
  from getLSPClient_ok [OF ok g] have c: "client_ok c (os w1)"
    by (metis session_client_ok)
  let ?c1 = "c\<lparr>handlers := handlers c @ [Diagnostics, Log, ShowMessage, Error, Close]\<rparr>"
  obtain r c2 sys2 where st: "client_start p s h ?c1 (os w1) = (r, c2, sys2)"
    by (cases "client_start p s h ?c1 (os w1)")
  from c have "client_ok ?c1 (os w1)" by simp
  from client_start_ok [OF this st] have "client_ok c2 sys2" .
  then show ?thesis
    using g st by (simp add: lsp_start_def session_ok_Some Let_def split: sum.splits)
qed

lemma lsp_request_ok: "session_ok w \<Longrightarrow> session_ok (snd (lsp_request m p out w))"
proof -
  assume ok: "session_ok w"
  obtain c w1 where g: "getLSPClient w = (c, w1)" by (cases "getLSPClient w")
  from getLSPClient_ok [OF ok g] have w1: "session_ok w1" and c: "client_ok c (os w1)"
    by (simp, metis session_client_ok)
  obtain r c2 sys2 where st: "client_request m p out c (os w1) = (r, c2, sys2)"
    by (cases "client_request m p out c (os w1)")
  from client_request_ok [OF c st] have "client_ok c2 sys2" .
  then show ?thesis
    using g st w1 by (simp add: lsp_request_def session_ok_Some Let_def split: sum.splits)
qed

lemma lsp_notify_ok: "session_ok w \<Longrightarrow> session_ok (snd (lsp_notify m p w))"
proof -
  assume ok: "session_ok w"
  obtain c w1 where g: "getLSPClient w = (c, w1)" by (cases "getLSPClient w")
  from getLSPClient_ok [OF ok g] have w1: "session_ok w1" and c: "client_ok c (os w1)"
    by (simp, metis session_client_ok)
  obtain r c2 sys2 where st: "client_notify m p c (os w1) = (r, c2, sys2)"
    by (cases "client_notify m p c (os w1)")
  from client_notify_ok [OF c st] have "client_ok c2 sys2" .
  then show ?thesis
    using g st w1 by (simp add: lsp_notify_def session_ok_Some Let_def split: sum.splits)
qed

lemma lsp_isRunning_ok: "session_ok w \<Longrightarrow> session_ok (snd (lsp_isRunning w))"
proof -
  assume ok: "session_ok w"
  obtain c w1 where g: "getLSPClient w = (c, w1)" by (cases "getLSPClient w")
  from getLSPClient_ok [OF ok g] show ?thesis
    using g by (simp add: lsp_isRunning_def)
qed

lemma server_exit_ok: "session_ok w \<Longrightarrow> session_ok (run_event ServerExit w)"
proof (cases "lspClient w")
  case None
  assume "session_ok w"
  with None show ?thesis by simp
next
  case (Some c)
  assume ok: "session_ok w"
  obtain c1 sys1 where e: "process_exited c (os w) = (c1, sys1)"
    by (cases "process_exited c (os w)")
  from process_exited_ok [OF session_client_ok [OF ok Some] e]
  show ?thesis using Some e by (simp add: session_ok_Some)
qed

lemma run_event_ok: "session_ok w \<Longrightarrow> session_ok (run_event e w)"
proof (cases e)
  case ServerExit
  assume "session_ok w"
  with ServerExit show ?thesis by (simp only: server_exit_ok)
qed (simp_all add: lsp_start_ok lsp_request_ok lsp_notify_ok lsp_isRunning_ok lsp_stop_def destroy_ok)

lemma run_events_ok: "session_ok w \<Longrightarrow> session_ok (run_events es w)"
  by (induction es arbitrary: w) (simp_all add: run_event_ok)

lemma initialMain_ok: "session_ok initialMain"
  by (simp add: session_ok_def initialMain_def initialOs_def client_processes_def)

lemma session_ok_children: "session_ok w \<Longrightarrow> length (children (os w)) \<le> 1"
  by (auto simp: session_ok_def client_processes_def split: option.splits)


lemma starts_with_append: "starts_with xs n \<Longrightarrow> starts_with (xs @ ys) n"
  by (induction xs n rule: starts_with.induct) auto

lemma js_includes_prefix: "starts_with xs n \<Longrightarrow> js_includes xs n"
  by (cases xs; cases n) auto

lemma failed_to_start_text:
  "js_includes (error_message (SpawnError detail)) (ascii ''Failed to start'')"
proof -
  have "starts_with (ascii ''Failed to start LSP server: '') (ascii ''Failed to start'')"
    by (simp add: ascii_def)
  then show ?thesis
    by (simp add: js_includes_prefix starts_with_append)
qed

lemma not_running_text:
  "js_includes (ascii ''LSP server not running'') (ascii ''not running'')"
  by (simp add: ascii_def)

lemma lsp_request_not_running:
  assumes "client_state_of w \<noteq> Running"
  shows "lsp_request m p out w = (failed (ascii ''LSP server not running''), snd (getLSPClient w))"
proof -
  obtain c w1 where g: "getLSPClient w = (c, w1)" by (cases "getLSPClient w")
  with assms have "\<not> isRunning c"
    by (simp add: isRunning_def client_state_of_def)
  with g show ?thesis by (simp add: lsp_request_def)
qed

lemma lsp_notify_not_running:
  assumes "client_state_of w \<noteq> Running"
  shows "lsp_notify m p w = (failed (ascii ''LSP server not running''), snd (getLSPClient w))"
proof -
  obtain c w1 where g: "getLSPClient w = (c, w1)" by (cases "getLSPClient w")
  with assms have "\<not> isRunning c"
    by (simp add: isRunning_def client_state_of_def)
  with g show ?thesis by (simp add: lsp_notify_def)
qed

lemma getLSPClient_os: "os (snd (getLSPClient w)) = os w"
  by (simp add: getLSPClient_def split: option.splits)

lemma stopped_after_lsp_stop: "client_state_of (snd (lsp_stop w)) = Stopped"
  by (simp add: lsp_stop_def destroyLSPClient_def client_state_of_def getLSPClient_def
      newClient_def Let_def split: option.splits prod.splits)


lemma demo_running_eq:
  "demo_running =
     \<lparr>lspClient = Some \<lparr>state = Running, capabilities = Some 7, process = Some 0,
                          pending = [], nextId = 1,
                          handlers = [Diagnostics, Log, ShowMessage, Error, Close]\<rparr>,
      os = \<lparr>children = [0], spawned = 1,
            stdin = [(0, Initialize 0 (ascii ''/proj'')), (0, Initialized)],
            rejected = [], killed = []\<rparr>\<rparr>"
  by (simp add: demo_running_def lsp_start_def getLSPClient_def initialMain_def initialOs_def
      newClient_def client_start_def write_frame_def succeeded_def Let_def)

lemma lsp_start_unfold:
  assumes "getLSPClient w = (c, w1)"
    and "client_start p s h (c\<lparr>handlers := handlers c @ [Diagnostics, Log, ShowMessage, Error, Close]\<rparr>) (os w1) = (r, c2, sys2)"
  shows "lsp_start p s h w =
     ((case r of Inr caps \<Rightarrow> succeeded (Some caps) | Inl e \<Rightarrow> failed (error_message e)),
      \<lparr>lspClient = Some c2, os = sys2\<rparr>)"
  using assms by (simp add: lsp_start_def Let_def split: sum.splits)

lemma client_start_already:
  "state c \<noteq> Stopped \<Longrightarrow> state c \<noteq> Crashed \<Longrightarrow>
   client_start p s h c sys = (Inl AlreadyRunningError, c, sys)"
  by (simp add: client_start_def)

lemma lsp_start_already:
  assumes "client_state_of w \<noteq> Stopped" and "client_state_of w \<noteq> Crashed"
  shows "fst (lsp_start p s h w) = failed (error_message AlreadyRunningError)"
    and "os (snd (lsp_start p s h w)) = os w"
    and "client_state_of (snd (lsp_start p s h w)) = client_state_of w"
proof -
  obtain c w1 where g: "getLSPClient w = (c, w1)" by (cases "getLSPClient w")
  let ?c1 = "c\<lparr>handlers := handlers c @ [Diagnostics, Log, ShowMessage, Error, Close]\<rparr>"
  from assms g have st: "state ?c1 \<noteq> Stopped" "state ?c1 \<noteq> Crashed"
    by (simp_all add: client_state_of_def)
  have cs: "client_start p s h ?c1 (os w1) = (Inl AlreadyRunningError, ?c1, os w1)"
    using st by (rule client_start_already)
  note u = lsp_start_unfold [OF g cs]
  from g have o: "os w1 = os w"
    by (auto simp: getLSPClient_def split: option.splits)
  show "fst (lsp_start p s h w) = failed (error_message AlreadyRunningError)"
    using u by simp
  show "os (snd (lsp_start p s h w)) = os w"
    using u o by simp
  show "client_state_of (snd (lsp_start p s h w)) = client_state_of w"
    using u g by (simp add: client_state_of_def getLSPClient_def)
qed


lemma getLSPClient_fst_state:
  "getLSPClient w = (c, w1) \<Longrightarrow> os w1 = os w \<and> lspClient w1 = Some c"
  by (auto simp: getLSPClient_def split: option.splits)

lemma lsp_start_success:
  assumes "client_state_of w = Stopped \<or> client_state_of w = Crashed"
  shows "lsp_start p SpawnOk (HandshakeOk caps) w =
     (\<lparr>success = True, payload = Some caps, error = None\<rparr>,
      \<lparr>lspClient = Some ((fst (getLSPClient w))
          \<lparr>handlers := handlers (fst (getLSPClient w)) @ [Diagnostics, Log, ShowMessage, Error, Close],
           state := Running, process := Some (spawned (os w)),
           nextId := nextId (fst (getLSPClient w)) + 1,
           capabilities := Some caps\<rparr>),
       os = (os w)\<lparr>children := children (os w) @ [spawned (os w)],
                   spawned := spawned (os w) + 1,
                   stdin := stdin (os w) @ [(spawned (os w), Initialize (nextId (fst (getLSPClient w))) p),
                                            (spawned (os w), Initialized)]\<rparr>\<rparr>)"
proof -
  obtain c w1 where g: "getLSPClient w = (c, w1)" by (cases "getLSPClient w")
  from assms g have st: "state c = Stopped \<or> state c = Crashed"
    by (simp add: client_state_of_def)
  from getLSPClient_fst_state [OF g] have o: "os w1 = os w" by simp
  show ?thesis
    using g st o
    by (auto simp: lsp_start_def client_start_def write_frame_def succeeded_def Let_def)
qed

lemma lsp_start_spawn_fails:
  assumes "client_state_of w = Stopped \<or> client_state_of w = Crashed"
  shows "lsp_start p (SpawnFails d) h w =
     (\<lparr>success = False, payload = None, error = Some (error_message (SpawnError d))\<rparr>,
      \<lparr>lspClient = Some ((fst (getLSPClient w))
          \<lparr>handlers := handlers (fst (getLSPClient w)) @ [Diagnostics, Log, ShowMessage, Error, Close],
           state := Stopped\<rparr>),
       os = os w\<rparr>)"
proof -
  obtain c w1 where g: "getLSPClient w = (c, w1)" by (cases "getLSPClient w")
  from assms g have st: "state c = Stopped \<or> state c = Crashed"
    by (simp add: client_state_of_def)
  from getLSPClient_fst_state [OF g] have o: "os w1 = os w" by simp
  show ?thesis
    using g st o
    by (auto simp: lsp_start_def client_start_def failed_def Let_def)
qed

lemma lsp_start_handshake_fails:
  assumes "client_state_of w = Stopped \<or> client_state_of w = Crashed"
  shows "lsp_start p SpawnOk (HandshakeFails e) w =
     (\<lparr>success = False, payload = None, error = Some (error_message e)\<rparr>,
      \<lparr>lspClient = Some ((fst (getLSPClient w))
          \<lparr>handlers := handlers (fst (getLSPClient w)) @ [Diagnostics, Log, ShowMessage, Error, Close],
           nextId := nextId (fst (getLSPClient w)) + 1,
           pending := [], state := Stopped, process := None\<rparr>),
       os = (os w)\<lparr>children := removeAll (spawned (os w)) (children (os w) @ [spawned (os w)]),
                   spawned := spawned (os w) + 1,
                   stdin := stdin (os w) @ [(spawned (os w), Initialize (nextId (fst (getLSPClient w))) p)],
                   killed := killed (os w) @ [spawned (os w)],
                   rejected := rejected (os w) @
                     map (\<lambda>i. (i, ConnectionClosedError)) (pending (fst (getLSPClient w)))\<rparr>\<rparr>)"
proof -
  obtain c w1 where g: "getLSPClient w = (c, w1)" by (cases "getLSPClient w")
  from assms g have st: "state c = Stopped \<or> state c = Crashed"
    by (simp add: client_state_of_def)
  from getLSPClient_fst_state [OF g] have o: "os w1 = os w" by simp
  show ?thesis
    using g st o
    by (auto simp: lsp_start_def client_start_def failed_def closeAll_def force_terminate_def
        write_frame_def Let_def)
qed



lemma lsp_stop_unfold:
  "lsp_stop w =
     (\<lparr>success = True, payload = None, error = None\<rparr>,
      (case lspClient w of
         None \<Rightarrow> w
       | Some c \<Rightarrow>
           \<lparr>lspClient = None,
            os = (os w)\<lparr>children := (case process c of None \<Rightarrow> children (os w)
                                        | Some pid \<Rightarrow> removeAll pid (children (os w))),
                        killed := (case process c of None \<Rightarrow> killed (os w)
                                        | Some pid \<Rightarrow> killed (os w) @ [pid]),
                        rejected := rejected (os w) @
                          map (\<lambda>i. (i, ConnectionClosedError)) (pending c)\<rparr>\<rparr>))"
  by (auto simp: lsp_stop_def succeeded_def destroyLSPClient_def closeAll_def force_terminate_def
      Let_def split: option.splits)


text \<open>
  C1. At most one child server process exists at any time, whatever the handlers are
  called with and whenever the server exits. A start while the client is neither
  Stopped nor Crashed fails with AlreadyRunningError and spawns nothing: a second
  lsp:start after a successful one returns a failure and leaves the processes as they
  were.
\<close>

theorem single_session:
  "length (children (os (run_events es initialMain))) \<le> 1
 \<and> (state c \<noteq> Stopped \<and> state c \<noteq> Crashed \<longrightarrow>
      client_start p s h c sys = (Inl AlreadyRunningError, c, sys))
 \<and> (client_state_of w \<noteq> Stopped \<and> client_state_of w \<noteq> Crashed \<longrightarrow>
      fst (lsp_start p s h w)
        = \<lparr>success = False, payload = None, error = Some (error_message AlreadyRunningError)\<rparr>
    \<and> os (snd (lsp_start p s h w)) = os w)
 \<and> (client_state_of w0 = Stopped \<or> client_state_of w0 = Crashed \<longrightarrow>
      success (fst (lsp_start p0 SpawnOk (HandshakeOk caps) w0))
    \<and> \<not> success (fst (lsp_start p s h (snd (lsp_start p0 SpawnOk (HandshakeOk caps) w0))))
    \<and> os (snd (lsp_start p s h (snd (lsp_start p0 SpawnOk (HandshakeOk caps) w0))))
        = os (snd (lsp_start p0 SpawnOk (HandshakeOk caps) w0))
    \<and> spawned (os (snd (lsp_start p s h (snd (lsp_start p0 SpawnOk (HandshakeOk caps) w0)))))
        = spawned (os w0) + 1)"
proof (intro conjI impI)
  show "length (children (os (run_events es initialMain))) \<le> 1"
    by (intro session_ok_children run_events_ok initialMain_ok)
next
  assume "state c \<noteq> Stopped \<and> state c \<noteq> Crashed"
  then show "client_start p s h c sys = (Inl AlreadyRunningError, c, sys)"
    by (simp add: client_start_already)
next
  assume a: "client_state_of w \<noteq> Stopped \<and> client_state_of w \<noteq> Crashed"
  then show "fst (lsp_start p s h w)
        = \<lparr>success = False, payload = None, error = Some (error_message AlreadyRunningError)\<rparr>"
    by (simp add: lsp_start_already(1) failed_def)
  from a show "os (snd (lsp_start p s h w)) = os w"
    by (simp add: lsp_start_already(2))
next
  assume a: "client_state_of w0 = Stopped \<or> client_state_of w0 = Crashed"
  let ?w1 = "snd (lsp_start p0 SpawnOk (HandshakeOk caps) w0)"
  note first = lsp_start_success [OF a, of p0 caps]
  have running: "client_state_of ?w1 \<noteq> Stopped" "client_state_of ?w1 \<noteq> Crashed"
    by (simp_all add: first client_state_of_def getLSPClient_def)
  show "success (fst (lsp_start p0 SpawnOk (HandshakeOk caps) w0))"
    by (simp add: first)
  show "\<not> success (fst (lsp_start p s h ?w1))"
    using lsp_start_already(1) [OF running] by (simp add: failed_def)
  show second: "os (snd (lsp_start p s h ?w1)) = os ?w1"
    using running by (rule lsp_start_already(2))
  show "spawned (os (snd (lsp_start p s h ?w1))) = spawned (os w0) + 1"
    by (simp add: second) (simp add: first)
qed

lemma client_state_of_demo_running: "client_state_of demo_running = Running"
  by (simp add: demo_running_eq client_state_of_def getLSPClient_def)

theorem single_session_witness:
  "client_state_of demo_running \<noteq> Stopped \<and> client_state_of demo_running \<noteq> Crashed
 \<and> fst (lsp_start (ascii ''/other'') SpawnOk (HandshakeOk 9) demo_running)
      = \<lparr>success = False, payload = None, error = Some (ascii ''AlreadyRunningError'')\<rparr>
 \<and> children (os (snd (lsp_start (ascii ''/other'') SpawnOk (HandshakeOk 9) demo_running))) = [0]
 \<and> spawned (os (snd (lsp_start (ascii ''/other'') SpawnOk (HandshakeOk 9) demo_running))) = 1"
proof -
  have running: "client_state_of demo_running \<noteq> Stopped \<and> client_state_of demo_running \<noteq> Crashed"
    by (simp add: client_state_of_demo_running)
  from single_session [where w = demo_running and p = "ascii ''/other''" and s = SpawnOk
      and h = "HandshakeOk 9" and c = newClient and ?w0.0 = initialMain and es = "[]"] running
  have "fst (lsp_start (ascii ''/other'') SpawnOk (HandshakeOk 9) demo_running)
      = \<lparr>success = False, payload = None, error = Some (error_message AlreadyRunningError)\<rparr>"
    and "os (snd (lsp_start (ascii ''/other'') SpawnOk (HandshakeOk 9) demo_running)) = os demo_running"
    by blast+
  then show ?thesis
    using running by (simp add: demo_running_eq)
qed

text \<open>
  C2. While the client is not Running, the lsp:request and lsp:notify handlers return
  \<open>{success: false, error: 'LSP server not running'}\<close>, a message that contains
  \<open>not running\<close>, and leave the processes and everything written to them as they
  were; this is so after lsp:stop has completed.
\<close>

theorem not_running_fails_fast:
  "(client_state_of w \<noteq> Running \<longrightarrow>
      fst (lsp_request m p out w)
        = \<lparr>success = False, payload = None, error = Some (ascii ''LSP server not running'')\<rparr>
    \<and> fst (lsp_notify m p w)
        = \<lparr>success = False, payload = None, error = Some (ascii ''LSP server not running'')\<rparr>
    \<and> os (snd (lsp_request m p out w)) = os w
    \<and> os (snd (lsp_notify m p w)) = os w
    \<and> client_state_of (snd (lsp_request m p out w)) = client_state_of w
    \<and> client_state_of (snd (lsp_notify m p w)) = client_state_of w)
 \<and> js_includes (ascii ''LSP server not running'') (ascii ''not running'')
 \<and> client_state_of (snd (lsp_stop w0)) \<noteq> Running"
proof (intro conjI impI)
  assume a: "client_state_of w \<noteq> Running"
  note r = lsp_request_not_running [OF a, of m p out]
  note n = lsp_notify_not_running [OF a, of m p]
  show "fst (lsp_request m p out w)
        = \<lparr>success = False, payload = None, error = Some (ascii ''LSP server not running'')\<rparr>"
    by (simp add: r failed_def)
  show "fst (lsp_notify m p w)
        = \<lparr>success = False, payload = None, error = Some (ascii ''LSP server not running'')\<rparr>"
    by (simp add: n failed_def)
  show "os (snd (lsp_request m p out w)) = os w"
    by (simp add: r getLSPClient_os)
  show "os (snd (lsp_notify m p w)) = os w"
    by (simp add: n getLSPClient_os)
  have same: "client_state_of (snd (getLSPClient w)) = client_state_of w"
    by (simp add: client_state_of_def getLSPClient_def split: option.splits)
  show "client_state_of (snd (lsp_request m p out w)) = client_state_of w"
    by (simp add: r same)
  show "client_state_of (snd (lsp_notify m p w)) = client_state_of w"
    by (simp add: n same)
next
  show "js_includes (ascii ''LSP server not running'') (ascii ''not running'')"
    by (rule not_running_text)
  show "client_state_of (snd (lsp_stop w0)) \<noteq> Running"
    by (simp add: stopped_after_lsp_stop)
qed

theorem not_running_fails_fast_witness:
  "client_state_of (snd (lsp_stop demo_running)) \<noteq> Running
 \<and> fst (lsp_request (ascii ''textDocument/hover'') 1 (Answered 2) (snd (lsp_stop demo_running)))
      = \<lparr>success = False, payload = None, error = Some (ascii ''LSP server not running'')\<rparr>
 \<and> os (snd (lsp_request (ascii ''textDocument/hover'') 1 (Answered 2) (snd (lsp_stop demo_running))))
      = os (snd (lsp_stop demo_running))"
proof -
  have stopped: "client_state_of (snd (lsp_stop demo_running)) \<noteq> Running"
    by (simp add: stopped_after_lsp_stop)
  from not_running_fails_fast [where w = "snd (lsp_stop demo_running)"
      and m = "ascii ''textDocument/hover''" and p = 1 and out = "Answered 2"
      and ?w0.0 = demo_running] stopped
  show ?thesis by blast
qed


text \<open>
  What a failed start from Stopped (or Crashed) leaves behind: the reply is
  \<open>success: false\<close> with the error's message, and the client is Stopped with no
  process. When the server cannot be spawned, the message contains
  \<open>Failed to start\<close> and nothing was spawned; when the handshake fails, the process
  that was spawned has been terminated by force, and the message is that of the
  handshake's error, whose text the client module sets.
\<close>

lemma start_failure_teardown:
  assumes "client_state_of w = Stopped \<or> client_state_of w = Crashed"
  shows "fst (lsp_start p (SpawnFails d) h w)
           = \<lparr>success = False, payload = None, error = Some (error_message (SpawnError d))\<rparr>
       \<and> js_includes (error_message (SpawnError d)) (ascii ''Failed to start'')
       \<and> client_state_of (snd (lsp_start p (SpawnFails d) h w)) = Stopped
       \<and> os (snd (lsp_start p (SpawnFails d) h w)) = os w
       \<and> fst (lsp_start p SpawnOk (HandshakeFails e) w)
           = \<lparr>success = False, payload = None, error = Some (error_message e)\<rparr>
       \<and> client_state_of (snd (lsp_start p SpawnOk (HandshakeFails e) w)) = Stopped
       \<and> map_option process (lspClient (snd (lsp_start p SpawnOk (HandshakeFails e) w))) = Some None
       \<and> spawned (os w) \<notin> set (children (os (snd (lsp_start p SpawnOk (HandshakeFails e) w))))
       \<and> killed (os (snd (lsp_start p SpawnOk (HandshakeFails e) w)))
           = killed (os w) @ [spawned (os w)]"
proof (intro conjI)
  note sf = lsp_start_spawn_fails [OF assms, of p d h]
  note hf = lsp_start_handshake_fails [OF assms, of p e]
  show "fst (lsp_start p (SpawnFails d) h w)
           = \<lparr>success = False, payload = None, error = Some (error_message (SpawnError d))\<rparr>"
    by (simp add: sf)
  show "js_includes (error_message (SpawnError d)) (ascii ''Failed to start'')"
    by (rule failed_to_start_text)
  show "client_state_of (snd (lsp_start p (SpawnFails d) h w)) = Stopped"
    by (simp add: sf client_state_of_def getLSPClient_def)
  show "os (snd (lsp_start p (SpawnFails d) h w)) = os w"
    by (simp add: sf)
  show "fst (lsp_start p SpawnOk (HandshakeFails e) w)
           = \<lparr>success = False, payload = None, error = Some (error_message e)\<rparr>"
    by (simp add: hf)
  show "client_state_of (snd (lsp_start p SpawnOk (HandshakeFails e) w)) = Stopped"
    by (simp add: hf client_state_of_def getLSPClient_def)
  show "map_option process (lspClient (snd (lsp_start p SpawnOk (HandshakeFails e) w))) = Some None"
    by (simp add: hf)
  show "spawned (os w) \<notin> set (children (os (snd (lsp_start p SpawnOk (HandshakeFails e) w))))"
    by (simp add: hf)
  show "killed (os (snd (lsp_start p SpawnOk (HandshakeFails e) w)))
           = killed (os w) @ [spawned (os w)]"
    by (simp add: hf)
qed

lemma client_state_of_initialMain: "client_state_of initialMain = Stopped"
  by (simp add: client_state_of_def getLSPClient_def initialMain_def newClient_def)

text \<open>
  C6. A start from Stopped (or Crashed) whose process spawns and whose handshake
  completes returns \<open>success: true\<close> with the capabilities of the handshake; the client
  is then Running, holds these capabilities and the one new process, and has written
  the initialize request and the confirmation notification to that process.
\<close>

theorem successful_start:
  assumes "client_state_of w = Stopped \<or> client_state_of w = Crashed"
  shows "fst (lsp_start p SpawnOk (HandshakeOk caps) w)
           = \<lparr>success = True, payload = Some caps, error = None\<rparr>
       \<and> client_state_of (snd (lsp_start p SpawnOk (HandshakeOk caps) w)) = Running
       \<and> map_option capabilities (lspClient (snd (lsp_start p SpawnOk (HandshakeOk caps) w)))
           = Some (Some caps)
       \<and> map_option process (lspClient (snd (lsp_start p SpawnOk (HandshakeOk caps) w)))
           = Some (Some (spawned (os w)))
       \<and> children (os (snd (lsp_start p SpawnOk (HandshakeOk caps) w)))
           = children (os w) @ [spawned (os w)]
       \<and> stdin (os (snd (lsp_start p SpawnOk (HandshakeOk caps) w)))
           = stdin (os w) @ [(spawned (os w), Initialize (nextId (fst (getLSPClient w))) p),
                             (spawned (os w), Initialized)]"
proof -
  note ok = lsp_start_success [OF assms, of p caps]
  show ?thesis
    by (simp add: ok client_state_of_def getLSPClient_def)
qed

theorem successful_start_witness:
  "client_state_of (initialMain :: nat main_process) = Stopped
 \<and> fst (lsp_start (ascii ''/proj'') SpawnOk (HandshakeOk 7) (initialMain :: nat main_process))
      = \<lparr>success = True, payload = Some 7, error = None\<rparr>
 \<and> client_state_of (snd (lsp_start (ascii ''/proj'') SpawnOk (HandshakeOk 7)
      (initialMain :: nat main_process))) = Running"
proof -
  have stopped: "client_state_of (initialMain :: nat main_process) = Stopped"
    by (rule client_state_of_initialMain)
  then have pre: "client_state_of (initialMain :: nat main_process) = Stopped
      \<or> client_state_of (initialMain :: nat main_process) = Crashed" ..
  from successful_start [OF pre, of "ascii ''/proj''" 7] stopped
  show ?thesis by simp
qed





section \<open>Wire framing: decoding what was encoded\<close>

lemma starts_with_length: "starts_with xs n \<Longrightarrow> length n \<le> length xs"
  by (induction xs n rule: starts_with.induct) auto

lemma find_separator_bound: "find_separator buf = Some k \<Longrightarrow> k + 4 \<le> length buf"
proof (induction buf arbitrary: k)
  case Nil
  then show ?case by simp
next
  case (Cons b bs)
  show ?case
  proof (cases "starts_with (b # bs) separator")
    case True
    with Cons.prems have "k = 0" by simp
    moreover from True have "length separator \<le> length (b # bs)"
      by (rule starts_with_length)
    ultimately show ?thesis by (simp add: separator_def)
  next
    case False
    with Cons.prems obtain j where "find_separator bs = Some j" and "k = Suc j"
      by auto
    with Cons.IH show ?thesis by simp
  qed
qed

termination drain
proof (relation "measure (\<lambda>(parse, buf). length buf)")
  show "wf (measure (\<lambda>(parse, buf). length buf))" by simp
next
  fix parse :: "byte list \<Rightarrow> 'p option" and buf k
  assume "find_separator buf = Some k"
  then have "k + 4 \<le> length buf" by (rule find_separator_bound)
  then show "((parse, drop (k + 4) buf), (parse, buf)) \<in> measure (\<lambda>(parse, buf). length buf)"
    by simp
next
  fix parse :: "byte list \<Rightarrow> 'p option" and buf k n
  assume "find_separator buf = Some k"
  then have "k + 4 \<le> length buf" by (rule find_separator_bound)
  then show "((parse, drop n (drop (k + 4) buf)), (parse, buf)) \<in> measure (\<lambda>(parse, buf). length buf)"
    by simp
qed


lemma unat_digit: "d < 10 \<Longrightarrow> unat (48 + word_of_nat d :: byte) = 48 + d"
proof -
  assume d: "d < 10"
  have "unat (of_nat (48 + d) :: byte) = (48 + d) mod 2 ^ LENGTH(8)"
    by (simp only: unat_of_nat)
  also from d have "\<dots> = 48 + d" by simp
  finally show ?thesis by simp
qed

lemma render_length_digits: "list_all is_digit (render_length n)"
  by (auto simp: render_length_def list_all_iff is_digit_def unat_digit dest!: decimal_digits)

lemma foldl_decimal:
  "foldl (\<lambda>acc b. 10 * acc + (unat b - 48)) a (map (\<lambda>d. of_nat (48 + d) :: byte) ds)
     = foldl (\<lambda>acc d. 10 * acc + d) a ds" if "\<forall>d \<in> set ds. d < 10"
  using that by (induction ds arbitrary: a) (simp_all add: unat_digit)

lemma parse_render_length: "parse_length (render_length n) = Some n"
proof -
  have "render_length n \<noteq> []"
    by (simp add: render_length_def decimal_nonempty)
  moreover have "foldl (\<lambda>acc b. 10 * acc + (unat b - 48)) 0 (render_length n) = n"
    unfolding render_length_def
    by (subst foldl_decimal) (auto simp: decimal_value dest: decimal_digits)
  ultimately show ?thesis
    by (simp add: parse_length_def render_length_digits)
qed

lemma starts_with_self_append: "starts_with (n @ xs) n"
  by (induction n) auto

lemma content_length_header:
  "content_length (header_name @ render_length n) = Some n"
  by (simp add: content_length_def starts_with_self_append parse_render_length)


declare drain.simps [simp del]

lemma find_separator_short: "length buf < 4 \<Longrightarrow> find_separator buf = None"
  using find_separator_bound [of buf] by (cases "find_separator buf") auto

lemma find_separator_skip:
  "b \<noteq> 13 \<Longrightarrow> find_separator (b # bs) = map_option Suc (find_separator bs)"
  by (simp add: separator_def)

lemma length_separator: "length separator = 4"
  by (simp add: separator_def)

lemma find_separator_at:
  "13 \<notin> set hd_bytes \<Longrightarrow> find_separator (hd_bytes @ separator @ rest) = Some (length hd_bytes)"
proof (induction hd_bytes)
  case Nil
  then show ?case by (simp add: separator_def)
next
  case (Cons b bs)
  then have "find_separator (b # (bs @ separator @ rest))
      = map_option Suc (find_separator (bs @ separator @ rest))"
    by (intro find_separator_skip) simp
  with Cons show ?case by (simp del: find_separator.simps)
qed

lemma find_separator_before:
  "13 \<notin> set hd_bytes \<Longrightarrow> m < length hd_bytes + 4 \<Longrightarrow>
   find_separator (take m (hd_bytes @ separator @ rest)) = None"
proof (induction hd_bytes arbitrary: m)
  case Nil
  then show ?case by (simp add: find_separator_short)
next
  case (Cons b bs)
  show ?case
  proof (cases m)
    case 0
    then show ?thesis by simp
  next
    case (Suc m')
    with Cons.prems have none: "find_separator (take m' (bs @ separator @ rest)) = None"
      by (intro Cons.IH) simp_all
    from Cons.prems have "find_separator (b # take m' (bs @ separator @ rest))
      = map_option Suc (find_separator (take m' (bs @ separator @ rest)))"
      by (intro find_separator_skip) simp
    with none have "find_separator (b # take m' (bs @ separator @ rest)) = None"
      by simp
    with Suc show ?thesis
      by (simp del: find_separator.simps take_append)
  qed
qed

lemma header_name_no_cr: "13 \<notin> set header_name"
  by (simp add: header_name_def bytes_of_def)

lemma render_length_no_cr: "13 \<notin> set (render_length n)"
proof
  assume "13 \<in> set (render_length n)"
  with render_length_digits [of n] have "is_digit 13"
    by (simp add: list_all_iff)
  then show False by (simp add: is_digit_def)
qed

lemma header_no_cr: "13 \<notin> set (header_name @ render_length n)"
  by (simp add: header_name_no_cr render_length_no_cr)

lemma drain_empty: "drain parse [] = ([], [])"
  by (subst drain.simps) simp

lemma drain_wait_header: "find_separator buf = None \<Longrightarrow> drain parse buf = ([], buf)"
  by (subst drain.simps) simp

lemma drain_wait_body:
  assumes "find_separator buf = Some k" and "content_length (take k buf) = Some n"
    and "length (drop (k + 4) buf) < n"
  shows "drain parse buf = ([], buf)"
  using assms by (subst drain.simps) simp

lemma drain_take_frame:
  assumes "find_separator buf = Some k" and "content_length (take k buf) = Some n"
    and "drop (k + 4) buf = body @ rest" and "length body = n"
  shows "drain parse buf = (read_body parse body # fst (drain parse rest), snd (drain parse rest))"
  using assms by (subst drain.simps) (simp split: prod.splits)

lemma encode_unfold:
  "encode stringify p =
     (header_name @ render_length (length (stringify p))) @ separator @ stringify p"
  by (simp add: encode_def Let_def)

lemma drain_frame:
  "drain parse (encode stringify p @ rest) =
     (read_body parse (stringify p) # fst (drain parse rest), snd (drain parse rest))"
proof -
  let ?h = "header_name @ render_length (length (stringify p))"
  have buf: "encode stringify p @ rest = ?h @ separator @ (stringify p @ rest)"
    by (simp add: encode_unfold)
  have sep: "find_separator (encode stringify p @ rest) = Some (length ?h)"
    unfolding buf using header_no_cr by (rule find_separator_at)
  have hd: "take (length ?h) (encode stringify p @ rest) = ?h"
    unfolding buf by simp
  have tl: "drop (length ?h + 4) (encode stringify p @ rest) = stringify p @ rest"
    unfolding buf by (simp add: length_separator)
  have len: "content_length (take (length ?h) (encode stringify p @ rest))
      = Some (length (stringify p))"
    by (simp only: hd content_length_header)
  show ?thesis
    using sep len tl by (rule drain_take_frame) simp
qed

lemma drain_incomplete:
  assumes "m < length (encode stringify p)"
  shows "drain parse (take m (encode stringify p)) = ([], take m (encode stringify p))"
proof -
  let ?h = "header_name @ render_length (length (stringify p))"
  let ?e = "encode stringify p"
  have e: "?e = ?h @ separator @ stringify p"
    by (rule encode_unfold)
  show ?thesis
  proof (cases "m < length ?h + 4")
    case True
    have "find_separator (take m ?e) = None"
      unfolding e using header_no_cr True by (rule find_separator_before)
    then show ?thesis by (rule drain_wait_header)
  next
    case False
    define r where "r = m - (length ?h + 4)"
    from False have m: "m = length ?h + 4 + r" by (simp add: r_def)
    from assms have r: "r < length (stringify p)"
      by (simp add: m e length_separator)
    have buf: "take m ?e = ?h @ separator @ take r (stringify p)"
      by (simp add: e m length_separator)
    have sep: "find_separator (take m ?e) = Some (length ?h)"
      unfolding buf using header_no_cr by (rule find_separator_at)
    have hd: "take (length ?h) (take m ?e) = ?h"
      unfolding buf by simp
    have tl: "drop (length ?h + 4) (take m ?e) = take r (stringify p)"
      unfolding buf by (simp add: length_separator)
    have len: "content_length (take (length ?h) (take m ?e)) = Some (length (stringify p))"
      by (simp only: hd content_length_header)
    from r have short: "length (drop (length ?h + 4) (take m ?e)) < length (stringify p)"
      by (simp only: tl) simp
    show ?thesis
      using sep len short by (rule drain_wait_body)
  qed
qed

lemma drain_complete:
  "drain parse (encode stringify p) = ([read_body parse (stringify p)], [])"
  using drain_frame [of parse stringify p "[]"] by (simp add: drain_empty)

lemma decode_empty_chunks:
  "concat chunks = [] \<Longrightarrow> decode parse chunks [] = ([], [])"
  by (induction chunks) (simp_all add: feed_def drain_empty)

lemma decode_frame:
  assumes "buf @ concat chunks = encode stringify p"
    and "length buf < length (encode stringify p)"
  shows "decode parse chunks buf = ([read_body parse (stringify p)], [])"
  using assms
proof (induction chunks arbitrary: buf)
  case Nil
  then show ?case by simp
next
  case (Cons c cs)
  let ?e = "encode stringify p"
  from Cons.prems(1) have split: "(buf @ c) @ concat cs = ?e" by simp
  show ?case
  proof (cases "length (buf @ c) < length ?e")
    case True
    from split have "buf @ c = take (length (buf @ c)) ?e"
      by (metis append_eq_conv_conj)
    with True have "drain parse (buf @ c) = ([], buf @ c)"
      using drain_incomplete [of "length (buf @ c)" stringify p parse] by simp
    moreover from split True have "decode parse cs (buf @ c) = ([read_body parse (stringify p)], [])"
      by (rule Cons.IH)
    ultimately show ?thesis by (simp add: feed_def)
  next
    case False
    from split have "length (buf @ c) + length (concat cs) = length ?e"
      by (metis length_append)
    with False have "length (concat cs) = 0" by linarith
    then have none: "concat cs = []" by (simp only: length_0_conv)
    with split have whole: "buf @ c = ?e" by simp
    from none have "decode parse cs [] = ([], [])"
      by (rule decode_empty_chunks)
    then show ?thesis
      by (simp add: feed_def whole drain_complete)
  qed
qed


lemma encode_nonempty: "0 < length (encode stringify p)"
  by (simp add: encode_unfold header_name_def bytes_of_def)

text \<open>
  C7. For a payload that survives the JSON layer (\<open>parse (stringify p) = Some p\<close>),
  decoding its frame gives exactly one message, the payload, and leaves the decoder's
  buffer empty, however the bytes of the frame are cut into chunks: the cuts are at
  byte offsets, so a cut inside a multi-byte UTF-8 character is one of them, as are
  empty chunks.
\<close>

theorem framing_round_trip:
  assumes "parse (stringify p) = Some p" and "concat chunks = encode stringify p"
  shows "decode parse chunks [] = ([Decoded p], [])"
proof -
  from assms(2) have "[] @ concat chunks = encode stringify p" by simp
  moreover have "length ([] :: byte list) < length (encode stringify p)"
    using encode_nonempty [of stringify p] by simp
  ultimately have "decode parse chunks [] = ([read_body parse (stringify p)], [])"
    by (rule decode_frame)
  with assms(1) show ?thesis by (simp add: read_body_def)
qed

theorem framing_round_trip_witness:
  "Some ((\<lambda>b. b) demo_body) = Some demo_body
 \<and> concat demo_chunks = encode (\<lambda>b. b) demo_body
 \<and> decode Some demo_chunks [] = ([Decoded demo_body], [])"
proof -
  have json: "Some ((\<lambda>b. b) demo_body) = Some demo_body" by simp
  have frame: "concat demo_chunks = encode (\<lambda>b. b) demo_body"
    by (simp add: demo_chunks_def demo_body_def encode_def header_name_def separator_def
        render_length_def bytes_of_def decimal.simps)
  from framing_round_trip [of Some "\<lambda>b. b" demo_body demo_chunks, OF json frame] json frame
  show ?thesis by simp
qed

end
